theory Spec2Isabelle
  imports Main
begin

section \<open>ReactElementValidator: data model\<close>

text \<open>
  A shallow embedding of \<^verbatim>\<open>packages/react/src/ReactElementValidator.js\<close> (the
  development build, \<^verbatim>\<open>__DEV__\<close> true). JavaScript values are a datatype, element
  objects live in a store indexed by address (their \<^verbatim>\<open>_store.validated\<close> flag is
  mutated in place and the same element can be reached twice), the module variables
  are fields of a state record, and a raised exception is the left summand of the
  result, paired with the state the exception leaves behind.
\<close>

type_synonym addr = nat
type_synonym fnid = nat

text \<open>\<^verbatim>\<open>_source\<close> / \<^verbatim>\<open>__source\<close>: the location record the JSX transform attaches.\<close>

record source_loc =
  fileName :: string
  lineNumber :: nat

text \<open>
  An owner (\<^verbatim>\<open>_owner\<close>, \<^verbatim>\<open>ReactCurrentOwner.current\<close>) is an object compared by
  identity. \<^verbatim>\<open>getComponentName\<close> is imported from \<^verbatim>\<open>shared/getComponentName\<close>; what it
  returns for an owner (a string or null) is carried with the owner.
\<close>

datatype owner = Owner (owner_id: nat) (owner_name: "string option")

definition getComponentName :: "owner \<Rightarrow> string option" where
  "getComponentName ow = owner_name ow"

text \<open>
  A callable type tag. \<^verbatim>\<open>propTypes\<close> is \<open>None\<close> when the property is falsy, otherwise the
  declared property names; \<^verbatim>\<open>getDefaultProps\<close> is \<open>None\<close> when it is not a function,
  otherwise the truthiness of its \<^verbatim>\<open>isReactClassApproved\<close>.
\<close>

type_synonym schema = "string list"

record component =
  displayName :: "string option"
  name :: "string option"
  propTypes :: "schema option"
  getDefaultProps :: "bool option"

text \<open>
  What an iterator function produces when it is called and its iterator is driven with
  \<^verbatim>\<open>next()\<close>: finitely many values, then either \<^verbatim>\<open>done\<close> or an exception (a malformed
  iterator); the values are elements that exist when the traversal starts. A property
  that may hold such a function is absent (or falsy), a truthy value that is not
  callable, or a function with an identity.
\<close>

datatype iter_end = Done | Throws

datatype 'v slot = Absent | NotCallable | Callable fnid "'v list" iter_end

text \<open>
  JavaScript values. \<open>Elem a\<close> is a reference to the element object at address \<open>a\<close>
  (an object whose \<^verbatim>\<open>$$typeof\<close> is the element marker); \<open>Obj\<close> is any other object:
  its own enumerable keys, its \<^verbatim>\<open>__source\<close> property, its \<^verbatim>\<open>Symbol.iterator\<close> and
  \<^verbatim>\<open>'@@iterator'\<close> properties, and the identity of the function stored in \<^verbatim>\<open>entries\<close>.
\<close>

datatype jsval =
    Undefined
  | Null
  | Bool bool
  | Num int
  | Str string
  | Sym string
  | Fun component
  | Arr "jsval list"
  | Elem addr
  | Obj "string list" "source_loc option" "jsval slot" "jsval slot" "fnid option"

record element =
  el_type :: jsval
  el_key :: jsval
  el_ref :: jsval
  el_props :: "(string \<times> jsval) list"
  el_owner :: "owner option"
  el_source :: "source_loc option"
  el_store :: "bool option"

text \<open>
  \<open>el_props\<close> lists the property bag in \<^verbatim>\<open>Object.keys\<close> order. \<open>el_store\<close> is \<open>None\<close> when
  the element has no \<^verbatim>\<open>_store\<close>, otherwise \<^verbatim>\<open>_store.validated\<close>.
\<close>

datatype error = TypeError | IteratorError | CheckerError nat

text \<open>Every call \<^verbatim>\<open>warning(false, format, ...args)\<close> of the module, with its arguments.\<close>

datatype diagnostic =
    MissingKey string string string
  | InvalidFragmentProp string string
  | InvalidFragmentRef string
  | InvalidType string string
  | GetDefaultPropsMisuse

text \<open>
  The state: the element store, the module variables \<^verbatim>\<open>currentlyValidatingElement\<close> and
  \<^verbatim>\<open>ownerHasKeyUseWarning\<close> (the own keys of the object, in insertion order; every value
  stored is \<^verbatim>\<open>true\<close>), the diagnostics emitted so far, and what the module reads from its
  surroundings: \<^verbatim>\<open>ReactCurrentOwner.current\<close>, the result of
  \<^verbatim>\<open>ReactDebugCurrentFrame.getStackAddendum()\<close>, the imported function
  \<^verbatim>\<open>describeComponentFrame\<close>, and whether the engine has \<^verbatim>\<open>Symbol\<close>.
\<close>

record state =
  heap :: "addr \<Rightarrow> element"
  currentlyValidatingElement :: "addr option"
  ownerHasKeyUseWarning :: "string list"
  warnings :: "diagnostic list"
  ReactCurrentOwner_current :: "owner option"
  ReactDebugCurrentFrame_getStackAddendum :: "string option"
  describeComponentFrame :: "string \<Rightarrow> source_loc option \<Rightarrow> string option \<Rightarrow> string"
  Symbol_supported :: bool

type_synonym outcome = "(error \<times> state) + state"

text \<open>The state a call leaves behind, whether it returned or raised.\<close>

definition final :: "outcome \<Rightarrow> state" where
  "final r = (case r of Inl (e, s) \<Rightarrow> s | Inr s \<Rightarrow> s)"

definition final_of :: "(error \<times> state) + ('a \<times> state) \<Rightarrow> state" where
  "final_of r = (case r of Inl (e, s) \<Rightarrow> s | Inr (v, s) \<Rightarrow> s)"

section \<open>Helpers of the module\<close>

definition truthy :: "string option \<Rightarrow> bool" where
  "truthy v = (case v of None \<Rightarrow> False | Some t \<Rightarrow> t \<noteq> [])"

definition typeof :: "jsval \<Rightarrow> string" where
  "typeof v =
     (case v of
        Undefined \<Rightarrow> ''undefined''
      | Null \<Rightarrow> ''object''
      | Bool b \<Rightarrow> ''boolean''
      | Num n \<Rightarrow> ''number''
      | Str t \<Rightarrow> ''string''
      | Sym t \<Rightarrow> ''symbol''
      | Fun c \<Rightarrow> ''function''
      | Arr xs \<Rightarrow> ''object''
      | Elem a \<Rightarrow> ''object''
      | Obj keys src symbolIterator fauxIterator entries \<Rightarrow> ''object'')"

text \<open>\<^verbatim>\<open>x == null\<close>\<close>

definition nullish :: "jsval \<Rightarrow> bool" where
  "nullish v = (v = Null \<or> v = Undefined)"

text \<open>
  \<^verbatim>\<open>v.displayName || v.name\<close>: reading a property of \<^verbatim>\<open>null\<close> or \<^verbatim>\<open>undefined\<close> raises; only
  functions carry the two properties.
\<close>

definition displayName_or_name :: "jsval \<Rightarrow> error + string option" where
  "displayName_or_name v =
     (case v of
        Undefined \<Rightarrow> Inl TypeError
      | Null \<Rightarrow> Inl TypeError
      | Fun c \<Rightarrow> Inr (if truthy (displayName c) then displayName c else name c)
      | _ \<Rightarrow> Inr None)"

definition REACT_FRAGMENT_TYPE :: "state \<Rightarrow> jsval" where
  "REACT_FRAGMENT_TYPE s = (if Symbol_supported s then Sym ''react.fragment'' else Num 0xeacb)"

definition VALID_FRAGMENT_PROPS :: "string list" where
  "VALID_FRAGMENT_PROPS = [''children'', ''key'']"

definition getDisplayName :: "state \<Rightarrow> jsval \<Rightarrow> error + string" where
  "getDisplayName s v =
     (case v of
        Undefined \<Rightarrow> Inr ''#empty''
      | Null \<Rightarrow> Inr ''#empty''
      | Str t \<Rightarrow> Inr ''#text''
      | Num n \<Rightarrow> Inr ''#text''
      | Elem a \<Rightarrow>
          (case el_type (heap s a) of
             Str t \<Rightarrow> Inr t
           | ty \<Rightarrow>
               if ty = REACT_FRAGMENT_TYPE s then Inr ''React.Fragment''
               else (case displayName_or_name ty of
                       Inl e \<Rightarrow> Inl e
                     | Inr n \<Rightarrow> Inr (case n of
                                       None \<Rightarrow> ''Unknown''
                                     | Some t \<Rightarrow> if t \<noteq> [] then t else ''Unknown'')))
      | _ \<Rightarrow> Inl TypeError)"

definition getStackAddendum :: "state \<Rightarrow> error + string" where
  "getStackAddendum s =
     (let frames = (case ReactDebugCurrentFrame_getStackAddendum s of
                      None \<Rightarrow> [] | Some t \<Rightarrow> t)
      in case currentlyValidatingElement s of
           None \<Rightarrow> Inr frames
         | Some a \<Rightarrow>
             (case getDisplayName s (Elem a) of
                Inl e \<Rightarrow> Inl e
              | Inr n \<Rightarrow>
                  Inr (describeComponentFrame s n (el_source (heap s a))
                         (case el_owner (heap s a) of
                            None \<Rightarrow> None
                          | Some ow \<Rightarrow> getComponentName ow)
                       @ frames)))"

definition getDeclarationErrorAddendum :: "state \<Rightarrow> string" where
  "getDeclarationErrorAddendum s =
     (case ReactCurrentOwner_current s of
        None \<Rightarrow> []
      | Some ow \<Rightarrow>
          (case getComponentName ow of
             None \<Rightarrow> []
           | Some n \<Rightarrow>
               if n \<noteq> []
               then [CHR 0x0A, CHR 0x0A] @ ''Check the render method of `'' @ n @ ''`.''
               else []))"

definition getCurrentComponentErrorInfo :: "state \<Rightarrow> jsval \<Rightarrow> error + string" where
  "getCurrentComponentErrorInfo s parentType =
     (let info = getDeclarationErrorAddendum s
      in if info \<noteq> [] then Inr info
         else (case (case parentType of
                       Str t \<Rightarrow> Inr (Some t)
                     | _ \<Rightarrow> displayName_or_name parentType) of
                 Inl e \<Rightarrow> Inl e
               | Inr parentName \<Rightarrow>
                   (case parentName of
                      None \<Rightarrow> Inr info
                    | Some n \<Rightarrow>
                        if n \<noteq> []
                        then Inr ([CHR 0x0A, CHR 0x0A]
                                  @ ''Check the top-level render call using <'' @ n @ ''>.'')
                        else Inr info)))"

text \<open>
  \<^verbatim>\<open>ownerHasKeyUseWarning\<close> is a plain object literal, so a lookup also finds what
  \<^verbatim>\<open>Object.prototype\<close> provides; all of those properties are truthy.
\<close>

definition Object_prototype_keys :: "string list" where
  "Object_prototype_keys =
     [''constructor'', ''__defineGetter__'', ''__defineSetter__'', ''hasOwnProperty'',
      ''__lookupGetter__'', ''__lookupSetter__'', ''isPrototypeOf'',
      ''propertyIsEnumerable'', ''toString'', ''valueOf'', ''__proto__'',
      ''toLocaleString'']"

definition hasKeyUseWarning :: "state \<Rightarrow> string \<Rightarrow> bool" where
  "hasKeyUseWarning s info =
     (info \<in> set (ownerHasKeyUseWarning s) \<or> info \<in> set Object_prototype_keys)"

definition warn :: "diagnostic \<Rightarrow> state \<Rightarrow> state" where
  "warn d s = s\<lparr>warnings := warnings s @ [d]\<rparr>"

section \<open>Key validation\<close>

definition childOwnerAddendum :: "state \<Rightarrow> element \<Rightarrow> string" where
  "childOwnerAddendum s el =
     (case el_owner el of
        None \<Rightarrow> []
      | Some ow \<Rightarrow>
          if Some ow \<noteq> ReactCurrentOwner_current s
          then '' It was passed a child from ''
               @ (case getComponentName ow of None \<Rightarrow> ''null'' | Some n \<Rightarrow> n) @ ''.''
          else [])"

definition validateExplicitKey :: "addr \<Rightarrow> jsval \<Rightarrow> state \<Rightarrow> outcome" where
  "validateExplicitKey a parentType s =
     (let el = heap s a in
      if el_store el = None \<or> el_store el = Some True \<or> \<not> nullish (el_key el) then Inr s
      else
        let s1 = s\<lparr>heap := (heap s)(a := el\<lparr>el_store := Some True\<rparr>)\<rparr> in
        (case getCurrentComponentErrorInfo s1 parentType of
          Inl e \<Rightarrow> Inl (e, s1)
        | Inr info \<Rightarrow>
            if hasKeyUseWarning s1 info then Inr s1
            else
              let s2 = s1\<lparr>ownerHasKeyUseWarning := ownerHasKeyUseWarning s1 @ [info]\<rparr>;
                  childOwner = childOwnerAddendum s2 el;
                  s3 = s2\<lparr>currentlyValidatingElement := Some a\<rparr>
              in (case getStackAddendum s3 of
                    Inl e \<Rightarrow> Inl (e, s3)
                  | Inr stack \<Rightarrow>
                      Inr ((warn (MissingKey info childOwner stack) s3)
                             \<lparr>currentlyValidatingElement := None\<rparr>))))"

text \<open>The loop over an array: \<^verbatim>\<open>if (isValidElement(child)) validateExplicitKey(child, parentType)\<close>.\<close>

fun validateChildKeys_array :: "jsval list \<Rightarrow> jsval \<Rightarrow> state \<Rightarrow> outcome" where
  "validateChildKeys_array [] parentType s = Inr s"
| "validateChildKeys_array (child # rest) parentType s =
     (case child of
        Elem a \<Rightarrow>
          (case validateExplicitKey a parentType s of
             Inl x \<Rightarrow> Inl x
           | Inr s' \<Rightarrow> validateChildKeys_array rest parentType s')
      | _ \<Rightarrow> validateChildKeys_array rest parentType s)"

text \<open>
  The loop \<^verbatim>\<open>while (!(step = iterator.next()).done)\<close> over the values the iterator
  produces; when they run out the iterator either reports \<^verbatim>\<open>done\<close> or raises.
\<close>

fun validateChildKeys_iterate :: "jsval list \<Rightarrow> iter_end \<Rightarrow> jsval \<Rightarrow> state \<Rightarrow> outcome" where
  "validateChildKeys_iterate [] fin parentType s =
     (case fin of Done \<Rightarrow> Inr s | Throws \<Rightarrow> Inl (IteratorError, s))"
| "validateChildKeys_iterate (v # rest) fin parentType s =
     (case v of
        Elem a \<Rightarrow>
          (case validateExplicitKey a parentType s of
             Inl x \<Rightarrow> Inl x
           | Inr s' \<Rightarrow> validateChildKeys_iterate rest fin parentType s')
      | _ \<Rightarrow> validateChildKeys_iterate rest fin parentType s)"

text \<open>\<^verbatim>\<open>(ITERATOR_SYMBOL && node[ITERATOR_SYMBOL]) || node[FAUX_ITERATOR_SYMBOL]\<close>\<close>

definition iteratorFn :: "state \<Rightarrow> jsval slot \<Rightarrow> jsval slot \<Rightarrow> jsval slot" where
  "iteratorFn s symbolIterator fauxIterator =
     (if Symbol_supported s \<and> symbolIterator \<noteq> Absent then symbolIterator else fauxIterator)"

definition validateChildKeys :: "jsval \<Rightarrow> jsval \<Rightarrow> state \<Rightarrow> outcome" where
  "validateChildKeys node parentType s =
     (if typeof node \<noteq> ''object'' then Inr s
      else
        (case node of
           Arr children \<Rightarrow> validateChildKeys_array children parentType s
         | Elem a \<Rightarrow>
             (case el_store (heap s a) of
                None \<Rightarrow> Inr s
              | Some v \<Rightarrow> Inr (s\<lparr>heap := (heap s)(a := (heap s a)\<lparr>el_store := Some True\<rparr>)\<rparr>))
         | Obj keys src symbolIterator fauxIterator entries \<Rightarrow>
             (case iteratorFn s symbolIterator fauxIterator of
                Callable f vals fin \<Rightarrow>
                  if Some f \<noteq> entries then validateChildKeys_iterate vals fin parentType s
                  else Inr s
              | _ \<Rightarrow> Inr s)
         | _ \<Rightarrow> Inr s))"

section \<open>Schema and fragment validation\<close>

text \<open>
  \<^verbatim>\<open>checkPropTypes\<close> is imported from the \<^verbatim>\<open>prop-types\<close> package: a parameter. It receives
  the schema, the property bag, the label, the component name and the stack provider,
  and it may run any code, validation entry points of this module included, or raise.
\<close>

type_synonym checker =
  "schema \<Rightarrow> (string \<times> jsval) list \<Rightarrow> string \<Rightarrow> string option
     \<Rightarrow> (state \<Rightarrow> error + string) \<Rightarrow> state \<Rightarrow> outcome"

definition validatePropTypes :: "checker \<Rightarrow> addr \<Rightarrow> state \<Rightarrow> outcome" where
  "validatePropTypes checkPropTypes a s =
     (case el_type (heap s a) of
        Fun componentClass \<Rightarrow>
          (let nm = (if truthy (displayName componentClass) then displayName componentClass
                     else name componentClass)
           in case (case propTypes componentClass of
                      None \<Rightarrow> Inr s
                    | Some pt \<Rightarrow>
                        (case checkPropTypes pt (el_props (heap s a)) ''prop'' nm getStackAddendum
                                (s\<lparr>currentlyValidatingElement := Some a\<rparr>) of
                           Inl x \<Rightarrow> Inl x
                         | Inr s' \<Rightarrow> Inr (s'\<lparr>currentlyValidatingElement := None\<rparr>))) of
                Inl x \<Rightarrow> Inl x
              | Inr s1 \<Rightarrow>
                  (case getDefaultProps componentClass of
                     None \<Rightarrow> Inr s1
                   | Some approved \<Rightarrow>
                       Inr (if approved then s1 else warn GetDefaultPropsMisuse s1)))
      | _ \<Rightarrow> Inr s)"

text \<open>
  The loop over \<^verbatim>\<open>Object.keys(fragment.props)\<close>: the first key that
  \<^verbatim>\<open>VALID_FRAGMENT_PROPS\<close> lacks is reported, then the loop breaks.
\<close>

fun validateFragmentProps_keys :: "string list \<Rightarrow> state \<Rightarrow> outcome" where
  "validateFragmentProps_keys [] s = Inr s"
| "validateFragmentProps_keys (k # ks) s =
     (if k \<notin> set VALID_FRAGMENT_PROPS
      then (case getStackAddendum s of
              Inl e \<Rightarrow> Inl (e, s)
            | Inr stack \<Rightarrow> Inr (warn (InvalidFragmentProp k stack) s))
      else validateFragmentProps_keys ks s)"

definition validateFragmentProps :: "addr \<Rightarrow> state \<Rightarrow> outcome" where
  "validateFragmentProps a s =
     (let s1 = s\<lparr>currentlyValidatingElement := Some a\<rparr>
      in case validateFragmentProps_keys (map fst (el_props (heap s1 a))) s1 of
           Inl x \<Rightarrow> Inl x
         | Inr s2 \<Rightarrow>
             (case (if el_ref (heap s2 a) \<noteq> Null
                    then (case getStackAddendum s2 of
                            Inl e \<Rightarrow> Inl (e, s2)
                          | Inr stack \<Rightarrow> Inr (warn (InvalidFragmentRef stack) s2))
                    else Inr s2) of
                Inl x \<Rightarrow> Inl x
              | Inr s3 \<Rightarrow> Inr (s3\<lparr>currentlyValidatingElement := None\<rparr>)))"

section \<open>The validating facade\<close>

text \<open>\<^verbatim>\<open>arguments[i]\<close>: \<^verbatim>\<open>undefined\<close> past the end.\<close>

definition arg :: "jsval list \<Rightarrow> nat \<Rightarrow> jsval" where
  "arg args i = (if i < length args then args ! i else Undefined)"

text \<open>\<^verbatim>\<open>for (var i = 2; i < arguments.length; i++) validateChildKeys(arguments[i], type)\<close>\<close>

function validateChildKeys_arguments :: "nat \<Rightarrow> jsval list \<Rightarrow> jsval \<Rightarrow> state \<Rightarrow> outcome" where
  "validateChildKeys_arguments i args parentType s =
     (if i < length args
      then (case validateChildKeys (args ! i) parentType s of
              Inl x \<Rightarrow> Inl x
            | Inr s' \<Rightarrow> validateChildKeys_arguments (Suc i) args parentType s')
      else Inr s)"
  by pat_completeness auto
termination
  by (relation "measure (\<lambda>(i, args, parentType, s). length args - i)") auto

declare validateChildKeys_arguments.simps [simp del]

text \<open>The decimal digits of a number, as string concatenation prints it.\<close>

function string_of_nat :: "nat \<Rightarrow> string" where
  "string_of_nat n =
     (if n < 10 then [''0123456789'' ! n]
      else string_of_nat (n div 10) @ [''0123456789'' ! (n mod 10)])"
  by pat_completeness auto
termination
  by (relation "measure id") auto

declare string_of_nat.simps [simp del]

text \<open>
  \<^verbatim>\<open>fileName.replace(/^.*[\\\/]/, '')\<close>: on the first line of the name, everything up to
  the last slash or backslash is removed.
\<close>

definition is_separator :: "char \<Rightarrow> bool" where
  "is_separator c = (c = CHR ''/'' \<or> c = CHR 0x5C)"

definition strip_directories :: "string \<Rightarrow> string" where
  "strip_directories f =
     (let line = takeWhile (\<lambda>c. c \<noteq> CHR 0x0A \<and> c \<noteq> CHR 0x0D) f
      in if list_ex is_separator line
         then rev (takeWhile (\<lambda>c. \<not> is_separator c) (rev line)) @ drop (length line) f
         else f)"

definition getSourceInfoErrorAddendum :: "jsval \<Rightarrow> string" where
  "getSourceInfoErrorAddendum elementProps =
     (case elementProps of
        Obj keys (Some src) symbolIterator fauxIterator entries \<Rightarrow>
          [CHR 0x0A, CHR 0x0A] @ ''Check your code at '' @ strip_directories (fileName src)
          @ '':'' @ string_of_nat (lineNumber src) @ ''.''
      | _ \<Rightarrow> [])"

definition validType :: "jsval \<Rightarrow> bool" where
  "validType ty =
     (typeof ty = ''string'' \<or> typeof ty = ''function'' \<or> typeof ty = ''symbol''
      \<or> typeof ty = ''number'')"

text \<open>\<^verbatim>\<open>Object.keys(type).length === 0\<close> for a non-null object; an element object has keys.\<close>

definition hasNoKeys :: "jsval \<Rightarrow> bool" where
  "hasNoKeys ty =
     (case ty of
        Arr xs \<Rightarrow> xs = []
      | Obj keys src symbolIterator fauxIterator entries \<Rightarrow> keys = []
      | _ \<Rightarrow> False)"

definition missingExportHint :: string where
  "missingExportHint =
     '' You likely forgot to export your component from the file it's defined in.''"

definition invalidTypeInfo :: "state \<Rightarrow> jsval \<Rightarrow> jsval \<Rightarrow> string" where
  "invalidTypeInfo s ty props =
     (if ty = Undefined \<or> (typeof ty = ''object'' \<and> ty \<noteq> Null \<and> hasNoKeys ty)
      then missingExportHint else [])
     @ (let sourceInfo = getSourceInfoErrorAddendum props
        in if sourceInfo \<noteq> [] then sourceInfo else getDeclarationErrorAddendum s)"

text \<open>\<^verbatim>\<open>type == null ? type : typeof type\<close>, as the format prints it.\<close>

definition typeDescription :: "jsval \<Rightarrow> string" where
  "typeDescription ty =
     (if ty = Undefined then ''undefined'' else if ty = Null then ''null'' else typeof ty)"

text \<open>
  \<^verbatim>\<open>createElement\<close> and \<^verbatim>\<open>cloneElement\<close> are imported from \<^verbatim>\<open>./ReactElement\<close>: parameters.
  They receive the arguments as given, read the state and return the store with the
  new element in it; \<^verbatim>\<open>createElement\<close> may return nothing.
\<close>

type_synonym constructor = "jsval list \<Rightarrow> state \<Rightarrow> addr option \<times> (addr \<Rightarrow> element)"
type_synonym cloner = "jsval list \<Rightarrow> state \<Rightarrow> addr \<times> (addr \<Rightarrow> element)"

definition createElementWithValidation ::
  "checker \<Rightarrow> constructor \<Rightarrow> jsval list \<Rightarrow> state \<Rightarrow> (error \<times> state) + (addr option \<times> state)" where
  "createElementWithValidation checkPropTypes createElement args s =
     (let ty = arg args 0; props = arg args 1 in
      case (if \<not> validType ty
            then (case getStackAddendum s of
                    Inl e \<Rightarrow> Inl (e, s)
                  | Inr stack \<Rightarrow>
                      Inr (warn (InvalidType (typeDescription ty)
                                   (invalidTypeInfo s ty props @ stack)) s))
            else Inr s) of
        Inl x \<Rightarrow> Inl x
      | Inr s1 \<Rightarrow>
          (case createElement args s1 of
             (None, h) \<Rightarrow> Inr (None, s1\<lparr>heap := h\<rparr>)
           | (Some a, h) \<Rightarrow>
               (case (if validType ty
                      then validateChildKeys_arguments 2 args ty (s1\<lparr>heap := h\<rparr>)
                      else Inr (s1\<lparr>heap := h\<rparr>)) of
                  Inl x \<Rightarrow> Inl x
                | Inr s2 \<Rightarrow>
                    (case (if typeof ty = ''symbol'' \<and> ty = REACT_FRAGMENT_TYPE s2
                           then validateFragmentProps a s2
                           else validatePropTypes checkPropTypes a s2) of
                       Inl x \<Rightarrow> Inl x
                     | Inr s3 \<Rightarrow> Inr (Some a, s3)))))"

definition cloneElementWithValidation ::
  "checker \<Rightarrow> cloner \<Rightarrow> jsval list \<Rightarrow> state \<Rightarrow> (error \<times> state) + (addr \<times> state)" where
  "cloneElementWithValidation checkPropTypes cloneElement args s =
     (case cloneElement args s of
        (a, h) \<Rightarrow>
          (case validateChildKeys_arguments 2 args (el_type (h a)) (s\<lparr>heap := h\<rparr>) of
             Inl x \<Rightarrow> Inl x
           | Inr s1 \<Rightarrow>
               (case validatePropTypes checkPropTypes a s1 of
                  Inl x \<Rightarrow> Inl x
                | Inr s2 \<Rightarrow> Inr (a, s2))))"

section \<open>Example values\<close>

text \<open>
  The state the module starts in (\<^verbatim>\<open>currentlyValidatingElement = null\<close>,
  \<^verbatim>\<open>ownerHasKeyUseWarning = {}\<close>, nothing emitted), over a given store and with no current
  owner, no debug frames, an engine that has \<^verbatim>\<open>Symbol\<close>, and a frame description that
  names the component and the owner that created it.
\<close>

definition frame_example :: "string \<Rightarrow> source_loc option \<Rightarrow> string option \<Rightarrow> string" where
  "frame_example n src ownerName =
     '' in '' @ n @ (case ownerName of None \<Rightarrow> [] | Some ow \<Rightarrow> '' (created by '' @ ow @ '')'')"

definition initial_state :: "(addr \<Rightarrow> element) \<Rightarrow> state" where
  "initial_state h =
     \<lparr>heap = h, currentlyValidatingElement = None, ownerHasKeyUseWarning = [],
      warnings = [], ReactCurrentOwner_current = None,
      ReactDebugCurrentFrame_getStackAddendum = None,
      describeComponentFrame = frame_example, Symbol_supported = True\<rparr>"

text \<open>An element as \<^verbatim>\<open>createElement\<close> builds it: no reference, no owner, not yet validated.\<close>

definition new_element :: "jsval \<Rightarrow> jsval \<Rightarrow> (string \<times> jsval) list \<Rightarrow> element" where
  "new_element ty k props =
     \<lparr>el_type = ty, el_key = k, el_ref = Null, el_props = props, el_owner = None,
      el_source = None, el_store = Some False\<rparr>"

text \<open>
  A store for the examples: 1 and 2 are list items without a key, 3 is a list item with
  a key, 4 is an element whose type is \<^verbatim>\<open>undefined\<close> (what
  \<^verbatim>\<open>createElement(undefined)\<close> returns after its warning), 5 is a fragment with a
  \<^verbatim>\<open>title\<close> property, 6 is a list item without a key that is already validated, 9 is
  an element of a component that declares a schema, 10 is a fragment whose reference is
  \<^verbatim>\<open>undefined\<close>, 11 is a fragment with allowed properties only.
\<close>

definition example_heap :: "addr \<Rightarrow> element" where
  "example_heap =
     (\<lambda>a. new_element (Str ''div'') Null [])
       (1 := new_element (Str ''li'') Null [],
        2 := new_element (Str ''li'') Null [],
        3 := new_element (Str ''li'') (Str ''k'') [],
        4 := new_element Undefined Null [],
        5 := new_element (Sym ''react.fragment'') Null
               [(''children'', Str ''x''), (''title'', Str ''y'')],
        6 := (new_element (Str ''li'') Null [])\<lparr>el_store := Some True\<rparr>,
        10 := (new_element (Sym ''react.fragment'') Null [(''children'', Str ''x'')])
                \<lparr>el_ref := Undefined\<rparr>,
        11 := new_element (Sym ''react.fragment'') (Str ''k'')
                [(''children'', Str ''x''), (''key'', Str ''k'')],
        9 := new_element
               (Fun \<lparr>displayName = None, name = Some ''Button'',
                     propTypes = Some [''label''], getDefaultProps = None\<rparr>)
               Null [(''label'', Num 1)])"

definition example_state :: state where
  "example_state = initial_state example_heap"

text \<open>
  Collaborators for the examples: a schema checker that accepts, one that raises, a
  construction primitive that builds the element at a given address with the type it is
  given, and a clone primitive that copies the element it is given to a given address.
\<close>

definition checker_accepts :: checker where
  "checker_accepts pt props label n getStack s = Inr s"

definition checker_raises :: checker where
  "checker_raises pt props label n getStack s = Inl (CheckerError 0, s)"

definition construct_at :: "addr \<Rightarrow> constructor" where
  "construct_at a args s =
     (Some a, (heap s)(a := (new_element (arg args 0) Null [])
                              \<lparr>el_owner := ReactCurrentOwner_current s\<rparr>))"

definition clone_at :: "addr \<Rightarrow> cloner" where
  "clone_at a args s =
     (a, (heap s)(a := (case arg args 0 of
                          Elem e \<Rightarrow> (heap s e)\<lparr>el_store := Some False\<rparr>
                        | _ \<Rightarrow> new_element Undefined Null [])))"

section \<open>Sequences of calls\<close>

text \<open>The context strings of the missing-key diagnostics in a list of diagnostics.\<close>

fun key_contexts :: "diagnostic list \<Rightarrow> string list" where
  "key_contexts [] = []"
| "key_contexts (MissingKey info childOwner stack # ds) = info # key_contexts ds"
| "key_contexts (d # ds) = key_contexts ds"

text \<open>
  A sequence of calls of \<^verbatim>\<open>validateExplicitKey\<close>, each made under the owner that is current
  at that moment. A call that raises leaves its state behind and the sequence goes on
  (the caller caught the exception).
\<close>

fun validateExplicitKey_calls :: "(owner option \<times> addr \<times> jsval) list \<Rightarrow> state \<Rightarrow> state" where
  "validateExplicitKey_calls [] s = s"
| "validateExplicitKey_calls ((ow, a, parentType) # calls) s =
     validateExplicitKey_calls calls
       (final (validateExplicitKey a parentType (s\<lparr>ReactCurrentOwner_current := ow\<rparr>)))"

text \<open>The diagnostics emitted between two states.\<close>

definition emitted :: "state \<Rightarrow> state \<Rightarrow> diagnostic list" where
  "emitted s s' = drop (length (warnings s)) (warnings s')"

definition ul_context :: string where
  "ul_context = [CHR 0x0A, CHR 0x0A] @ ''Check the top-level render call using <ul>.''"

text \<open>The schema the type of an element declares, if its type is callable and has one.\<close>

definition declaredSchema :: "state \<Rightarrow> addr \<Rightarrow> schema option" where
  "declaredSchema s a = (case el_type (heap s a) of Fun c \<Rightarrow> propTypes c | _ \<Rightarrow> None)"

section \<open>Traversals, as the specification words them\<close>

text \<open>The genuine elements among the values a traversal produces, in order.\<close>

definition elements_of :: "jsval list \<Rightarrow> addr list" where
  "elements_of vs = [a. Elem a \<leftarrow> vs]"

text \<open>
  Running \<^verbatim>\<open>validateExplicitKey\<close> on each element of a list, in order; an exception ends
  the run.
\<close>

fun validateExplicitKey_each :: "addr list \<Rightarrow> jsval \<Rightarrow> state \<Rightarrow> outcome" where
  "validateExplicitKey_each [] parentType s = Inr s"
| "validateExplicitKey_each (a # rest) parentType s =
     (case validateExplicitKey a parentType s of
        Inl x \<Rightarrow> Inl x
      | Inr s' \<Rightarrow> validateExplicitKey_each rest parentType s')"

text \<open>
  Running \<^verbatim>\<open>validateChildKeys\<close> on each of a list of children arguments, in order; an
  exception ends the run.
\<close>

fun validateChildKeys_each :: "jsval list \<Rightarrow> jsval \<Rightarrow> state \<Rightarrow> outcome" where
  "validateChildKeys_each [] parentType s = Inr s"
| "validateChildKeys_each (node # rest) parentType s =
     (case validateChildKeys node parentType s of
        Inl x \<Rightarrow> Inl x
      | Inr s' \<Rightarrow> validateChildKeys_each rest parentType s')"

definition is_MissingKey :: "diagnostic \<Rightarrow> bool" where
  "is_MissingKey d = (case d of MissingKey info childOwner stack \<Rightarrow> True | _ \<Rightarrow> False)"

text \<open>Between two states nothing emitted was lost and only missing-key diagnostics were added.\<close>

definition only_key_warnings :: "state \<Rightarrow> state \<Rightarrow> bool" where
  "only_key_warnings s s' =
     (take (length (warnings s)) (warnings s') = warnings s
      \<and> list_all is_MissingKey (emitted s s'))"

text \<open>
  Three calls of \<^verbatim>\<open>createElementWithValidation\<close> from the example state, the caller
  catching what the second raises:
  \<^verbatim>\<open>var bad = createElement(undefined)\<close>, then \<^verbatim>\<open>createElement('div', null, [bad])\<close>, then
  \<^verbatim>\<open>createElement(undefined)\<close> again. These are the states after the first and after the
  second.
\<close>

definition after_undefined_type :: state where
  "after_undefined_type =
     final_of (createElementWithValidation checker_accepts (construct_at 20) [Undefined]
       example_state)"

definition after_invalid_child :: state where
  "after_invalid_child =
     final_of (createElementWithValidation checker_accepts (construct_at 21)
       [Str ''div'', Null, Arr [Elem 20]] after_undefined_type)"

section \<open>Properties\<close>

subsection \<open>The validated flag\<close>

lemma final_simps [simp]: "final (Inr s) = s" "final (Inl (e, s)) = s"
  by (simp_all add: final_def)

lemma validateExplicitKey_store:
  "el_store (heap s b) = Some True \<Longrightarrow>
   el_store (heap (final (validateExplicitKey a pt s)) b) = Some True"
  by (auto simp: validateExplicitKey_def Let_def warn_def split: sum.splits)

lemma validateExplicitKey_sets:
  "el_store (heap s a) = Some False \<Longrightarrow> nullish (el_key (heap s a)) \<Longrightarrow>
   el_store (heap (final (validateExplicitKey a pt s)) a) = Some True"
  by (auto simp: validateExplicitKey_def Let_def warn_def split: sum.splits)

lemma validateChildKeys_array_store:
  "el_store (heap s b) = Some True \<Longrightarrow>
   el_store (heap (final (validateChildKeys_array xs pt s)) b) = Some True"
proof (induction xs arbitrary: s)
  case Nil
  then show ?case by simp
next
  case (Cons x xs)
  show ?case
  proof (cases x)
    case (Elem a)
    show ?thesis
    proof (cases "validateExplicitKey a pt s")
      case (Inl p)
      then show ?thesis using Cons.prems validateExplicitKey_store [of s b a pt] Elem
        by (cases p) simp
    next
      case (Inr s')
      then show ?thesis
        using Cons.prems validateExplicitKey_store [of s b a pt] Elem Cons.IH [of s']
        by simp
    qed
  qed (use Cons in simp_all)
qed

lemma validateChildKeys_iterate_store:
  "el_store (heap s b) = Some True \<Longrightarrow>
   el_store (heap (final (validateChildKeys_iterate xs fin pt s)) b) = Some True"
proof (induction xs arbitrary: s)
  case Nil
  then show ?case by (cases fin) simp_all
next
  case (Cons x xs)
  show ?case
  proof (cases x)
    case (Elem a)
    show ?thesis
    proof (cases "validateExplicitKey a pt s")
      case (Inl p)
      then show ?thesis using Cons.prems validateExplicitKey_store [of s b a pt] Elem
        by (cases p) simp
    next
      case (Inr s')
      then show ?thesis
        using Cons.prems validateExplicitKey_store [of s b a pt] Elem Cons.IH [of s']
        by simp
    qed
  qed (use Cons in simp_all)
qed

lemma validateChildKeys_store:
  "el_store (heap s b) = Some True \<Longrightarrow>
   el_store (heap (final (validateChildKeys node pt s)) b) = Some True"
  by (auto simp: validateChildKeys_def validateChildKeys_array_store
      validateChildKeys_iterate_store split: jsval.splits option.splits slot.splits)

lemma validateChildKeys_arguments_store:
  "el_store (heap s b) = Some True \<Longrightarrow>
   el_store (heap (final (validateChildKeys_arguments i args pt s)) b) = Some True"
proof (induction i args pt s rule: validateChildKeys_arguments.induct)
  case (1 i args pt s)
  show ?case
  proof (cases "i < length args")
    case False
    then show ?thesis using "1.prems" by (simp add: validateChildKeys_arguments.simps)
  next
    case True
    show ?thesis
    proof (cases "validateChildKeys (args ! i) pt s")
      case (Inl p)
      then show ?thesis
        using True "1.prems" validateChildKeys_store [of s b "args ! i" pt]
        by (cases p) (simp add: validateChildKeys_arguments.simps)
    next
      case (Inr s')
      then show ?thesis
        using True "1.prems" validateChildKeys_store [of s b "args ! i" pt] "1.IH" [of s']
        by (simp add: validateChildKeys_arguments.simps)
    qed
  qed
qed

lemma validateFragmentProps_keys_heap:
  "heap (final (validateFragmentProps_keys ks s)) = heap s"
  by (induction ks) (auto simp: warn_def split: sum.splits)

lemma validateFragmentProps_heap:
  "heap (final (validateFragmentProps a s)) = heap s"
  using validateFragmentProps_keys_heap
    [of "map fst (el_props (heap s a))" "s\<lparr>currentlyValidatingElement := Some a\<rparr>"]
  by (auto simp: validateFragmentProps_def Let_def warn_def split: sum.splits)

lemma final_of_simps [simp]: "final_of (Inr (v, s)) = s" "final_of (Inl (e, s)) = s"
  by (simp_all add: final_of_def)

lemma validatePropTypes_store:
  assumes chk: "\<And>pt props l n g s'. el_store (heap s' b) = Some True \<Longrightarrow>
                  el_store (heap (final (checkPropTypes pt props l n g s')) b) = Some True"
    and "el_store (heap s b) = Some True"
  shows "el_store (heap (final (validatePropTypes checkPropTypes a s)) b) = Some True"
proof (cases "el_type (heap s a)")
  case (Fun c)
  show ?thesis
  proof (cases "propTypes c")
    case None
    then show ?thesis using Fun assms(2)
      by (simp add: validatePropTypes_def warn_def split: option.splits)
  next
    case (Some pt)
    let ?r = "checkPropTypes pt (el_props (heap s a)) ''prop''
                (if truthy (displayName c) then displayName c else name c) getStackAddendum
                (s\<lparr>currentlyValidatingElement := Some a\<rparr>)"
    have "el_store (heap (final ?r) b) = Some True"
      using chk [of "s\<lparr>currentlyValidatingElement := Some a\<rparr>"] assms(2) by simp
    then show ?thesis using Fun Some
      by (cases ?r) (auto simp: validatePropTypes_def warn_def Let_def split: option.splits)
  qed
qed (use assms(2) in \<open>simp_all add: validatePropTypes_def\<close>)


lemma createElementWithValidation_store:
  assumes chk: "\<And>pt props l n g s'. el_store (heap s' b) = Some True \<Longrightarrow>
                  el_store (heap (final (checkPropTypes pt props l n g s')) b) = Some True"
    and ce: "\<And>args s'. el_store (heap s' b) = Some True \<Longrightarrow>
                  el_store (snd (createElement args s') b) = Some True"
    and s: "el_store (heap s b) = Some True"
  shows "el_store (heap (final_of (createElementWithValidation checkPropTypes createElement args s)) b)
         = Some True"
proof -
  let ?ty = "arg args 0"
  let ?first = "if \<not> validType ?ty
            then (case getStackAddendum s of
                    Inl e \<Rightarrow> Inl (e, s)
                  | Inr stack \<Rightarrow>
                      Inr (warn (InvalidType (typeDescription ?ty)
                                   (invalidTypeInfo s ?ty (arg args 1) @ stack)) s))
            else Inr s"
  have first: "el_store (heap (final ?first) b) = Some True"
    using s by (auto simp: warn_def split: sum.splits)
  show ?thesis
  proof (cases ?first)
    case (Inl p)
    have "el_store (heap (snd p) b) = Some True" using first Inl by (cases p) simp
    then show ?thesis
      unfolding createElementWithValidation_def Let_def Inl by (cases p) simp
  next
    case (Inr s1)
    then have s1: "el_store (heap s1 b) = Some True" using first by simp
    obtain r h where c: "createElement args s1 = (r, h)" by (cases "createElement args s1")
    then have h: "el_store (h b) = Some True" using ce [OF s1, of args] by simp
    show ?thesis
    proof (cases r)
      case None
      then show ?thesis using h
        unfolding createElementWithValidation_def Let_def Inr by (simp add: c)
    next
      case (Some a)
      let ?keys = "if validType ?ty
                   then validateChildKeys_arguments 2 args ?ty (s1\<lparr>heap := h\<rparr>)
                   else Inr (s1\<lparr>heap := h\<rparr>)"
      have keys: "el_store (heap (final ?keys) b) = Some True"
        using h validateChildKeys_arguments_store [of "s1\<lparr>heap := h\<rparr>" b 2 args ?ty]
        by simp
      have unf: "createElementWithValidation checkPropTypes createElement args s =
          (case ?keys of
             Inl x \<Rightarrow> Inl x
           | Inr s2 \<Rightarrow>
               (case (if typeof ?ty = ''symbol'' \<and> ?ty = REACT_FRAGMENT_TYPE s2
                      then validateFragmentProps a s2
                      else validatePropTypes checkPropTypes a s2) of
                  Inl x \<Rightarrow> Inl x
                | Inr s3 \<Rightarrow> Inr (Some a, s3)))"
        unfolding createElementWithValidation_def Let_def Inr by (simp add: c Some)
      show ?thesis
      proof (cases ?keys)
        case (Inl p)
        have "el_store (heap (snd p) b) = Some True" using keys Inl by (cases p) simp
        then show ?thesis unfolding unf Inl by (cases p) simp
      next
        case k: (Inr s2)
        then have s2: "el_store (heap s2 b) = Some True" using keys by simp
        let ?last = "if typeof ?ty = ''symbol'' \<and> ?ty = REACT_FRAGMENT_TYPE s2
                     then validateFragmentProps a s2
                     else validatePropTypes checkPropTypes a s2"
        have last: "el_store (heap (final ?last) b) = Some True"
          using s2 validateFragmentProps_heap [of a s2]
            validatePropTypes_store [of b checkPropTypes s2 a, OF chk]
          by simp
        show ?thesis
        proof (cases ?last)
          case (Inl p)
          have "el_store (heap (snd p) b) = Some True" using last Inl by (cases p) simp
          then show ?thesis unfolding unf k using Inl by (cases p) simp
        next
          case l: (Inr s3)
          then have "el_store (heap s3 b) = Some True" using last by simp
          then show ?thesis unfolding unf k using l by simp
        qed
      qed
    qed
  qed
qed

lemma cloneElementWithValidation_store:
  assumes chk: "\<And>pt props l n g s'. el_store (heap s' b) = Some True \<Longrightarrow>
                  el_store (heap (final (checkPropTypes pt props l n g s')) b) = Some True"
    and cl: "\<And>args s'. el_store (heap s' b) = Some True \<Longrightarrow>
                  el_store (snd (cloneElement args s') b) = Some True"
    and s: "el_store (heap s b) = Some True"
  shows "el_store (heap (final_of (cloneElementWithValidation checkPropTypes cloneElement args s)) b)
         = Some True"
proof -
  obtain a h where c: "cloneElement args s = (a, h)" by (cases "cloneElement args s")
  then have h: "el_store (h b) = Some True" using cl [OF s, of args] by simp
  let ?keys = "validateChildKeys_arguments 2 args (el_type (h a)) (s\<lparr>heap := h\<rparr>)"
  have keys: "el_store (heap (final ?keys) b) = Some True"
    using h validateChildKeys_arguments_store [of "s\<lparr>heap := h\<rparr>" b 2 args] by simp
  show ?thesis
  proof (cases ?keys)
    case (Inl p)
    then show ?thesis using c keys
      by (cases p) (simp add: cloneElementWithValidation_def)
  next
    case k: (Inr s1)
    then have s1: "el_store (heap s1 b) = Some True" using keys by simp
    have last: "el_store (heap (final (validatePropTypes checkPropTypes a s1)) b) = Some True"
      using validatePropTypes_store [of b checkPropTypes s1 a, OF chk s1] by simp
    show ?thesis
    proof (cases "validatePropTypes checkPropTypes a s1")
      case (Inl p)
      then show ?thesis using c k last
        by (cases p) (simp add: cloneElementWithValidation_def)
    next
      case (Inr s2)
      then show ?thesis using c k last
        by (simp add: cloneElementWithValidation_def)
    qed
  qed
qed


text \<open>
  Claim C3. For an element that carries no validation record, or is already marked
  validated, or has an identity key that is not null (the source's \<^verbatim>\<open>key != null\<close>),
  \<^verbatim>\<open>validateExplicitKey\<close> does nothing: it returns with the whole state unchanged, so no
  diagnostic is emitted and neither the element's record nor the warning store changes.
\<close>

theorem validateExplicitKey_noop:
  assumes "el_store (heap s a) = None \<or> el_store (heap s a) = Some True
           \<or> \<not> nullish (el_key (heap s a))"
  shows "validateExplicitKey a parentType s = Inr s"
  using assms by (simp add: validateExplicitKey_def Let_def)

theorem validateExplicitKey_noop_witness:
  "\<not> nullish (el_key (heap example_state 3))
   \<and> validateExplicitKey 3 (Str ''ul'') example_state = Inr example_state"
proof -
  have k: "\<not> nullish (el_key (heap example_state 3))"
    by (simp add: example_state_def initial_state_def example_heap_def new_element_def
        nullish_def)
  then show ?thesis using validateExplicitKey_noop [of example_state 3 "Str ''ul''"] by simp
qed

text \<open>
  Claim C4. The \<^verbatim>\<open>validated\<close> flag of a validation record is never reset: once it is
  true it is still true after \<^verbatim>\<open>validateExplicitKey\<close>, \<^verbatim>\<open>validateChildKeys\<close>,
  \<^verbatim>\<open>validateFragmentProps\<close>, \<^verbatim>\<open>validatePropTypes\<close>, \<^verbatim>\<open>createElementWithValidation\<close> and
  \<^verbatim>\<open>cloneElementWithValidation\<close>, whether the call returns or raises (the imported
  primitives being assumed to leave it alone), so it changes from false to true at most
  once; and \<^verbatim>\<open>validateExplicitKey\<close> sets it whenever none of its three guards applies,
  whether the diagnostic is then emitted, suppressed by the warning store, or lost to
  an exception. The record itself, with the flag false, is made by the construction
  primitive, outside this module.
\<close>

theorem alreadyValidated_never_reset:
  assumes "\<And>pt props l n g s'. el_store (heap s' b) = Some True \<Longrightarrow>
             el_store (heap (final (checkPropTypes pt props l n g s')) b) = Some True"
    and "\<And>args s'. el_store (heap s' b) = Some True \<Longrightarrow>
             el_store (snd (createElement args s') b) = Some True"
    and "\<And>args s'. el_store (heap s' b) = Some True \<Longrightarrow>
             el_store (snd (cloneElement args s') b) = Some True"
  shows "(el_store (heap s b) = Some True \<longrightarrow>
            el_store (heap (final (validateExplicitKey a parentType s)) b) = Some True
          \<and> el_store (heap (final (validateChildKeys node parentType s)) b) = Some True
          \<and> el_store (heap (final (validateFragmentProps a s)) b) = Some True
          \<and> el_store (heap (final (validatePropTypes checkPropTypes a s)) b) = Some True
          \<and> el_store (heap (final_of
                (createElementWithValidation checkPropTypes createElement args s)) b) = Some True
          \<and> el_store (heap (final_of
                (cloneElementWithValidation checkPropTypes cloneElement args s)) b) = Some True)
       \<and> (el_store (heap s a) = Some False \<and> nullish (el_key (heap s a)) \<longrightarrow>
            el_store (heap (final (validateExplicitKey a parentType s)) a) = Some True)"
proof (intro conjI impI)
  assume b: "el_store (heap s b) = Some True"
  show "el_store (heap (final (validateExplicitKey a parentType s)) b) = Some True"
    using b by (rule validateExplicitKey_store)
  show "el_store (heap (final (validateChildKeys node parentType s)) b) = Some True"
    using b by (rule validateChildKeys_store)
  show "el_store (heap (final (validateFragmentProps a s)) b) = Some True"
    using b by (simp add: validateFragmentProps_heap)
  show "el_store (heap (final (validatePropTypes checkPropTypes a s)) b) = Some True"
    using assms(1) b by (rule validatePropTypes_store)
  show "el_store (heap (final_of
          (createElementWithValidation checkPropTypes createElement args s)) b) = Some True"
    using assms(1) assms(2) b by (rule createElementWithValidation_store)
  show "el_store (heap (final_of
          (cloneElementWithValidation checkPropTypes cloneElement args s)) b) = Some True"
    using assms(1) assms(3) b by (rule cloneElementWithValidation_store)
next
  assume "el_store (heap s a) = Some False \<and> nullish (el_key (heap s a))"
  then show "el_store (heap (final (validateExplicitKey a parentType s)) a) = Some True"
    by (simp add: validateExplicitKey_sets)
qed

theorem alreadyValidated_never_reset_witness:
  "el_store (heap example_state 6) = Some True
   \<and> el_store (heap (final (validateExplicitKey 1 (Str ''ul'') example_state)) 6) = Some True
   \<and> el_store (heap (final (validateChildKeys (Arr [Elem 6, Elem 1]) (Str ''ul'')
        example_state)) 6) = Some True
   \<and> el_store (heap (final_of (createElementWithValidation checker_accepts (construct_at 7)
        [Str ''ul'', Null, Arr [Elem 6, Elem 1]] example_state)) 6) = Some True
   \<and> el_store (heap (final_of (cloneElementWithValidation checker_accepts (clone_at 8)
        [Elem 6, Null, Elem 6] example_state)) 6) = Some True
   \<and> el_store (heap example_state 1) = Some False
   \<and> nullish (el_key (heap example_state 1))
   \<and> el_store (heap (final (validateExplicitKey 1 (Str ''ul'') example_state)) 1) = Some True"
proof -
  have chk: "\<And>pt props l n g s'. el_store (heap s' 6) = Some True \<Longrightarrow>
      el_store (heap (final (checker_accepts pt props l n g s')) 6) = Some True"
    by (simp add: checker_accepts_def)
  have ce: "\<And>args s'. el_store (heap s' 6) = Some True \<Longrightarrow>
      el_store (snd (construct_at 7 args s') 6) = Some True"
    by (simp add: construct_at_def)
  have cl: "\<And>args s'. el_store (heap s' 6) = Some True \<Longrightarrow>
      el_store (snd (clone_at 8 args s') 6) = Some True"
    by (simp add: clone_at_def)
  have six: "el_store (heap example_state 6) = Some True"
    by (simp add: example_state_def initial_state_def example_heap_def new_element_def)
  have one: "el_store (heap example_state 1) = Some False \<and> nullish (el_key (heap example_state 1))"
    by (simp add: example_state_def initial_state_def example_heap_def new_element_def
        nullish_def)
  show ?thesis
    using alreadyValidated_never_reset [where b = 6 and checkPropTypes = checker_accepts
        and createElement = "construct_at 7" and cloneElement = "clone_at 8"
        and s = example_state and a = 1 and parentType = "Str ''ul''"
        and node = "Arr [Elem 6, Elem 1]"
        and args = "[Str ''ul'', Null, Arr [Elem 6, Elem 1]]", OF chk ce cl]
      alreadyValidated_never_reset [where b = 6 and checkPropTypes = checker_accepts
        and createElement = "construct_at 7" and cloneElement = "clone_at 8"
        and s = example_state and a = 1 and parentType = "Str ''ul''"
        and node = "Arr [Elem 6, Elem 1]"
        and args = "[Elem 6, Null, Elem 6]", OF chk ce cl]
      six one
    by simp
qed

text \<open>
  Claim C5. When a single element is passed as a children argument, \<^verbatim>\<open>validateChildKeys\<close>
  returns without emitting any diagnostic and without touching the warning store,
  whatever the element's key is; if the element has a validation record, the record is
  marked validated; and from then on \<^verbatim>\<open>validateExplicitKey\<close> on that element does nothing,
  in any state in which the record is as this call left it.
\<close>

theorem validateChildKeys_single_element:
  "validateChildKeys (Elem a) parentType s = Inr (final (validateChildKeys (Elem a) parentType s))
   \<and> warnings (final (validateChildKeys (Elem a) parentType s)) = warnings s
   \<and> ownerHasKeyUseWarning (final (validateChildKeys (Elem a) parentType s))
       = ownerHasKeyUseWarning s
   \<and> (el_store (heap s a) \<noteq> None \<longrightarrow>
        el_store (heap (final (validateChildKeys (Elem a) parentType s)) a) = Some True)
   \<and> (\<forall>t parentType'.
        el_store (heap t a) = el_store (heap (final (validateChildKeys (Elem a) parentType s)) a)
        \<longrightarrow> validateExplicitKey a parentType' t = Inr t)"
  by (auto simp: validateChildKeys_def typeof_def validateExplicitKey_def
      split: option.splits)

theorem validateChildKeys_single_element_witness:
  "el_store (heap example_state 1) \<noteq> None
   \<and> nullish (el_key (heap example_state 1))
   \<and> warnings (final (validateChildKeys (Elem 1) (Str ''ul'') example_state)) = []
   \<and> el_store (heap (final (validateChildKeys (Elem 1) (Str ''ul'') example_state)) 1)
       = Some True
   \<and> validateExplicitKey 1 (Str ''ol'') (final (validateChildKeys (Elem 1) (Str ''ul'')
        example_state))
       = Inr (final (validateChildKeys (Elem 1) (Str ''ul'') example_state))"
proof -
  have one: "el_store (heap example_state 1) \<noteq> None \<and> nullish (el_key (heap example_state 1))"
    by (simp add: example_state_def initial_state_def example_heap_def new_element_def
        nullish_def)
  have w: "warnings example_state = []"
    by (simp add: example_state_def initial_state_def)
  show ?thesis
    using validateChildKeys_single_element [of 1 "Str ''ul''" example_state] one w
    by simp
qed

subsection \<open>The warning store\<close>

lemmas evaluation =
  validateExplicitKey_def getCurrentComponentErrorInfo_def getDeclarationErrorAddendum_def
  getStackAddendum_def getDisplayName_def displayName_or_name_def hasKeyUseWarning_def
  Object_prototype_keys_def childOwnerAddendum_def warn_def nullish_def truthy_def
  REACT_FRAGMENT_TYPE_def getComponentName_def typeof_def
  example_state_def initial_state_def example_heap_def new_element_def frame_example_def
  Let_def

lemma key_contexts_append: "key_contexts (xs @ ys) = key_contexts xs @ key_contexts ys"
  by (induction xs rule: key_contexts.induct) simp_all

lemma validateExplicitKey_step:
  "(warnings (final (validateExplicitKey a pt s)) = warnings s
      \<and> set (ownerHasKeyUseWarning s) \<subseteq> set (ownerHasKeyUseWarning (final (validateExplicitKey a pt s))))
   \<or> (\<exists>info co st.
         warnings (final (validateExplicitKey a pt s)) = warnings s @ [MissingKey info co st]
       \<and> info \<notin> set (ownerHasKeyUseWarning s)
       \<and> ownerHasKeyUseWarning (final (validateExplicitKey a pt s))
           = ownerHasKeyUseWarning s @ [info])"
  by (auto simp: validateExplicitKey_def Let_def warn_def hasKeyUseWarning_def split: sum.splits)

lemma validateExplicitKey_calls_emitted:
  "\<exists>ext. warnings (validateExplicitKey_calls calls s) = warnings s @ ext
       \<and> length (key_contexts ext) = length ext
       \<and> distinct (key_contexts ext)
       \<and> set (key_contexts ext) \<inter> set (ownerHasKeyUseWarning s) = {}
       \<and> set (key_contexts ext) \<subseteq> set (ownerHasKeyUseWarning (validateExplicitKey_calls calls s))
       \<and> set (ownerHasKeyUseWarning s) \<subseteq> set (ownerHasKeyUseWarning (validateExplicitKey_calls calls s))"
proof (induction calls arbitrary: s)
  case Nil
  then show ?case by simp
next
  case (Cons c calls)
  obtain ow a pt where c: "c = (ow, a, pt)" by (cases c)
  let ?s0 = "s\<lparr>ReactCurrentOwner_current := ow\<rparr>"
  let ?s1 = "final (validateExplicitKey a pt ?s0)"
  obtain ext where ext: "warnings (validateExplicitKey_calls calls ?s1) = warnings ?s1 @ ext"
     "length (key_contexts ext) = length ext"
     "distinct (key_contexts ext)"
     "set (key_contexts ext) \<inter> set (ownerHasKeyUseWarning ?s1) = {}"
     "set (key_contexts ext) \<subseteq> set (ownerHasKeyUseWarning (validateExplicitKey_calls calls ?s1))"
     "set (ownerHasKeyUseWarning ?s1) \<subseteq> set (ownerHasKeyUseWarning (validateExplicitKey_calls calls ?s1))"
    using Cons.IH [of ?s1] by blast
  from validateExplicitKey_step [of a pt ?s0]
  consider (quiet) "warnings ?s1 = warnings s"
      "set (ownerHasKeyUseWarning s) \<subseteq> set (ownerHasKeyUseWarning ?s1)"
    | (warned) info co st where "warnings ?s1 = warnings s @ [MissingKey info co st]"
      "info \<notin> set (ownerHasKeyUseWarning s)"
      "ownerHasKeyUseWarning ?s1 = ownerHasKeyUseWarning s @ [info]"
    by auto
  then show ?case
  proof cases
    case quiet
    have "warnings (validateExplicitKey_calls (c # calls) s) = warnings s @ ext"
      using c ext(1) quiet(1) by simp
    moreover have "set (key_contexts ext) \<inter> set (ownerHasKeyUseWarning s) = {}"
      using ext(4) quiet(2) by blast
    moreover have "set (ownerHasKeyUseWarning s)
        \<subseteq> set (ownerHasKeyUseWarning (validateExplicitKey_calls (c # calls) s))"
      using c ext(6) quiet(2) by auto
    moreover have "set (key_contexts ext)
        \<subseteq> set (ownerHasKeyUseWarning (validateExplicitKey_calls (c # calls) s))"
      using c ext(5) by simp
    ultimately show ?thesis using ext(2,3) by blast
  next
    case warned
    let ?ext = "MissingKey info co st # ext"
    have "warnings (validateExplicitKey_calls (c # calls) s) = warnings s @ ?ext"
      using c ext(1) warned(1) by simp
    moreover have "length (key_contexts ?ext) = length ?ext" using ext(2) by simp
    moreover have "distinct (key_contexts ?ext)"
      using ext(3,4) warned(3) by auto
    moreover have "set (key_contexts ?ext) \<inter> set (ownerHasKeyUseWarning s) = {}"
      using ext(4) warned(2,3) by auto
    moreover have "set (key_contexts ?ext)
        \<subseteq> set (ownerHasKeyUseWarning (validateExplicitKey_calls (c # calls) s))"
      using c ext(5,6) warned(3) by auto
    moreover have "set (ownerHasKeyUseWarning s)
        \<subseteq> set (ownerHasKeyUseWarning (validateExplicitKey_calls (c # calls) s))"
      using c ext(6) warned(3) by auto
    ultimately show ?thesis by blast
  qed
qed

lemma validateExplicitKey_return_records:
  "validateExplicitKey a pt s = Inr s' \<Longrightarrow>
   key_contexts (emitted s s') = drop (length (ownerHasKeyUseWarning s)) (ownerHasKeyUseWarning s')"
  by (auto simp: validateExplicitKey_def Let_def warn_def emitted_def split: sum.splits if_splits)

lemma validateExplicitKey_recorded_silent:
  "getCurrentComponentErrorInfo s pt = Inr info \<Longrightarrow> info \<in> set (ownerHasKeyUseWarning s) \<Longrightarrow>
   warnings (final (validateExplicitKey a pt s)) = warnings s"
proof -
  assume a: "getCurrentComponentErrorInfo s pt = Inr info" "info \<in> set (ownerHasKeyUseWarning s)"
  have "getCurrentComponentErrorInfo (s\<lparr>heap := h\<rparr>) pt = getCurrentComponentErrorInfo s pt" for h
    by (simp add: getCurrentComponentErrorInfo_def getDeclarationErrorAddendum_def)
  then show ?thesis using a
    by (simp add: validateExplicitKey_def Let_def hasKeyUseWarning_def)
qed

lemma context_not_inherited:
  "getCurrentComponentErrorInfo s parentType = Inr info \<Longrightarrow>
   info \<notin> set Object_prototype_keys"
  by (auto simp: getCurrentComponentErrorInfo_def getDeclarationErrorAddendum_def
      Object_prototype_keys_def Let_def split: option.splits if_splits sum.splits)

text \<open>
  Claim C1. A call of \<^verbatim>\<open>validateExplicitKey\<close> whose context string is already recorded in
  \<^verbatim>\<open>ownerHasKeyUseWarning\<close> emits nothing (and a context string is found in that object
  only if it was recorded: none is a property of \<^verbatim>\<open>Object.prototype\<close>). A call that
  returns reports exactly the context it newly recorded, if any. Over any sequence of
  calls, from any state and under any owners, whether the calls return or raise, nothing
  already emitted is lost, every diagnostic emitted is a missing-key diagnostic, their
  context strings are pairwise different and none of them was recorded before: the
  number of diagnostics emitted is the number of distinct context strings that were
  warned about.
\<close>

theorem missing_key_warned_once_per_context:
  "(getCurrentComponentErrorInfo s parentType = Inr info
      \<and> info \<in> set (ownerHasKeyUseWarning s)
      \<longrightarrow> warnings (final (validateExplicitKey a parentType s)) = warnings s)
   \<and> (getCurrentComponentErrorInfo s parentType = Inr info
      \<longrightarrow> hasKeyUseWarning s info = (info \<in> set (ownerHasKeyUseWarning s)))
   \<and> (validateExplicitKey a parentType s = Inr s'
      \<longrightarrow> key_contexts (emitted s s')
          = drop (length (ownerHasKeyUseWarning s)) (ownerHasKeyUseWarning s'))
   \<and> warnings (validateExplicitKey_calls calls s)
       = warnings s @ emitted s (validateExplicitKey_calls calls s)
   \<and> length (key_contexts (emitted s (validateExplicitKey_calls calls s)))
       = length (emitted s (validateExplicitKey_calls calls s))
   \<and> distinct (key_contexts (emitted s (validateExplicitKey_calls calls s)))
   \<and> length (emitted s (validateExplicitKey_calls calls s))
       = card (set (key_contexts (emitted s (validateExplicitKey_calls calls s))))
   \<and> set (key_contexts (emitted s (validateExplicitKey_calls calls s)))
       \<inter> set (ownerHasKeyUseWarning s) = {}"
proof -
  obtain ext where ext: "warnings (validateExplicitKey_calls calls s) = warnings s @ ext"
    "length (key_contexts ext) = length ext" "distinct (key_contexts ext)"
    "set (key_contexts ext) \<inter> set (ownerHasKeyUseWarning s) = {}"
    using validateExplicitKey_calls_emitted [of calls s] by blast
  have e: "emitted s (validateExplicitKey_calls calls s) = ext"
    using ext(1) by (simp add: emitted_def)
  have "length ext = card (set (key_contexts ext))"
    using ext(2,3) by (simp add: distinct_card)
  then show ?thesis
    using e ext validateExplicitKey_recorded_silent [of s parentType info a]
      validateExplicitKey_return_records [of a parentType s s']
      context_not_inherited [of s parentType info]
    by (simp add: hasKeyUseWarning_def)
qed

theorem missing_key_warned_once_per_context_witness:
  "getCurrentComponentErrorInfo (final (validateExplicitKey 1 (Str ''ul'') example_state))
      (Str ''ul'') = Inr ul_context
   \<and> ul_context \<in> set (ownerHasKeyUseWarning
        (final (validateExplicitKey 1 (Str ''ul'') example_state)))
   \<and> warnings (final (validateExplicitKey 2 (Str ''ul'')
        (final (validateExplicitKey 1 (Str ''ul'') example_state))))
       = [MissingKey ul_context [] '' in li'']
   \<and> validateExplicitKey 1 (Str ''ul'') example_state
       = Inr (final (validateExplicitKey 1 (Str ''ul'') example_state))
   \<and> key_contexts (emitted example_state
        (final (validateExplicitKey 1 (Str ''ul'') example_state))) = [ul_context]
   \<and> warnings (validateExplicitKey_calls
        [(None, 1, Str ''ul''), (None, 2, Str ''ul''), (None, 6, Str ''ol'')] example_state)
       = [MissingKey ul_context [] '' in li'']"
proof -
  let ?s1 = "final (validateExplicitKey 1 (Str ''ul'') example_state)"
  have c: "getCurrentComponentErrorInfo ?s1 (Str ''ul'') = Inr ul_context"
    by (simp add: evaluation ul_context_def)
  have m: "ul_context \<in> set (ownerHasKeyUseWarning ?s1)"
    by (simp add: evaluation ul_context_def)
  have w: "warnings ?s1 = [MissingKey ul_context [] '' in li'']"
    by (simp add: evaluation ul_context_def)
  have r: "validateExplicitKey 1 (Str ''ul'') example_state = Inr ?s1"
    by (simp add: evaluation ul_context_def)
  have o: "ownerHasKeyUseWarning ?s1 = [ul_context]" "ownerHasKeyUseWarning example_state = []"
    by (simp_all add: evaluation ul_context_def)
  have e: "warnings (validateExplicitKey_calls
        [(None, 1, Str ''ul''), (None, 2, Str ''ul''), (None, 6, Str ''ol'')] example_state)
       = [MissingKey ul_context [] '' in li'']"
    by (simp add: evaluation ul_context_def)
  show ?thesis
    using missing_key_warned_once_per_context [of ?s1 "Str ''ul''" ul_context 2 ?s1 "[]"]
      missing_key_warned_once_per_context [of example_state "Str ''ul''" ul_context 1 ?s1 "[]"]
      c m w r o e
    by simp
qed

subsection \<open>The pointer to the element being validated\<close>







lemmas evaluation_more =
  validateFragmentProps_def validatePropTypes_def VALID_FRAGMENT_PROPS_def
  checker_accepts_def checker_raises_def declaredSchema_def



subsection \<open>Fragments\<close>

lemma getStackAddendum_defined:
  "currentlyValidatingElement s = Some a \<Longrightarrow> \<not> nullish (el_type (heap s a)) \<Longrightarrow>
   \<exists>stack. getStackAddendum s = Inr stack"
  by (auto simp: getStackAddendum_def getDisplayName_def displayName_or_name_def nullish_def
      Let_def split: jsval.splits sum.splits option.splits)

lemma getStackAddendum_warnings [simp]:
  "getStackAddendum (s\<lparr>warnings := w\<rparr>) = getStackAddendum s"
  by (simp add: getStackAddendum_def getDisplayName_def REACT_FRAGMENT_TYPE_def Let_def
      cong: jsval.case_cong option.case_cong sum.case_cong)

lemma getStackAddendum_warn [simp]: "getStackAddendum (warn d s) = getStackAddendum s"
  by (simp add: warn_def)

lemma validateFragmentProps_keys_find:
  "getStackAddendum s = Inr stack \<Longrightarrow>
   validateFragmentProps_keys ks s =
     Inr (case find (\<lambda>k. k \<notin> set VALID_FRAGMENT_PROPS) ks of
            None \<Rightarrow> s
          | Some k \<Rightarrow> warn (InvalidFragmentProp k stack) s)"
  by (induction ks) simp_all

lemma validateFragmentProps_result:
  assumes "getStackAddendum (s\<lparr>currentlyValidatingElement := Some a\<rparr>) = Inr stack"
  shows "validateFragmentProps a s =
     Inr (s\<lparr>warnings := warnings s
              @ (case find (\<lambda>k. k \<notin> set VALID_FRAGMENT_PROPS) (map fst (el_props (heap s a))) of
                   None \<Rightarrow> []
                 | Some k \<Rightarrow> [InvalidFragmentProp k stack])
              @ (if el_ref (heap s a) \<noteq> Null then [InvalidFragmentRef stack] else []),
            currentlyValidatingElement := None\<rparr>)"
  using assms validateFragmentProps_keys_find [OF assms, of "map fst (el_props (heap s a))"]
  by (simp add: validateFragmentProps_def Let_def warn_def split: option.splits)

lemma fragment_not_nullish: "\<not> nullish (REACT_FRAGMENT_TYPE s)"
  by (simp add: REACT_FRAGMENT_TYPE_def nullish_def)

text \<open>
  Claim C7. For a fragment element, \<^verbatim>\<open>validateFragmentProps\<close> returns having added to the
  diagnostics at most one invalid-property diagnostic, which names the first key of the
  property bag (in \<^verbatim>\<open>Object.keys\<close> order) that is neither \<^verbatim>\<open>children\<close> nor \<^verbatim>\<open>key\<close>, and
  after it, whatever the scan found, one invalid-reference diagnostic when the
  reference is not \<^verbatim>\<open>null\<close>. When every key is allowed and the reference is \<^verbatim>\<open>null\<close>,
  nothing is emitted.
\<close>

theorem validateFragmentProps_diagnostics:
  assumes "el_type (heap s a) = REACT_FRAGMENT_TYPE s"
  shows "\<exists>stack.
           getStackAddendum (s\<lparr>currentlyValidatingElement := Some a\<rparr>) = Inr stack
         \<and> validateFragmentProps a s =
             Inr (s\<lparr>warnings := warnings s
                      @ (case find (\<lambda>k. k \<notin> set VALID_FRAGMENT_PROPS)
                                (map fst (el_props (heap s a))) of
                           None \<Rightarrow> []
                         | Some k \<Rightarrow> [InvalidFragmentProp k stack])
                      @ (if el_ref (heap s a) \<noteq> Null then [InvalidFragmentRef stack] else []),
                    currentlyValidatingElement := None\<rparr>)
         \<and> ((\<forall>k \<in> set (map fst (el_props (heap s a))). k \<in> set VALID_FRAGMENT_PROPS)
              \<and> el_ref (heap s a) = Null
              \<longrightarrow> warnings (final (validateFragmentProps a s)) = warnings s)"
proof -
  let ?s1 = "s\<lparr>currentlyValidatingElement := Some a\<rparr>"
  have "\<not> nullish (el_type (heap ?s1 a))"
    using assms fragment_not_nullish [of s] by simp
  then obtain stack where stack: "getStackAddendum ?s1 = Inr stack"
    using getStackAddendum_defined [of ?s1 a] by auto
  have none: "find (\<lambda>k. k \<notin> set VALID_FRAGMENT_PROPS) (map fst (el_props (heap s a))) = None"
    if "\<forall>k \<in> set (map fst (el_props (heap s a))). k \<in> set VALID_FRAGMENT_PROPS"
    using that by (simp add: find_None_iff)
  show ?thesis
    using stack validateFragmentProps_result [OF stack] none by auto
qed

theorem validateFragmentProps_diagnostics_witness:
  "el_type (heap example_state 5) = REACT_FRAGMENT_TYPE example_state
   \<and> validateFragmentProps 5 example_state =
       Inr (example_state\<lparr>warnings := [InvalidFragmentProp ''title'' '' in React.Fragment''],
              currentlyValidatingElement := None\<rparr>)
   \<and> el_type (heap example_state 11) = REACT_FRAGMENT_TYPE example_state
   \<and> list_all (\<lambda>k. k \<in> set VALID_FRAGMENT_PROPS) (map fst (el_props (heap example_state 11)))
   \<and> el_ref (heap example_state 11) = Null
   \<and> warnings (final (validateFragmentProps 11 example_state)) = []"
proof -
  have t5: "el_type (heap example_state 5) = REACT_FRAGMENT_TYPE example_state"
    and t11: "el_type (heap example_state 11) = REACT_FRAGMENT_TYPE example_state"
    by (simp_all add: evaluation)
  have g: "getStackAddendum (example_state\<lparr>currentlyValidatingElement := Some 5\<rparr>)
      = Inr '' in React.Fragment''"
    by (simp add: evaluation)
  have p5: "map fst (el_props (heap example_state 5)) = [''children'', ''title'']"
    "el_ref (heap example_state 5) = Null" "warnings example_state = []"
    by (simp_all add: evaluation)
  have p11: "\<forall>k \<in> set (map fst (el_props (heap example_state 11))). k \<in> set VALID_FRAGMENT_PROPS"
    "el_ref (heap example_state 11) = Null"
    by (simp_all add: evaluation VALID_FRAGMENT_PROPS_def)
  have five: "validateFragmentProps 5 example_state =
       Inr (example_state\<lparr>warnings := [InvalidFragmentProp ''title'' '' in React.Fragment''],
              currentlyValidatingElement := None\<rparr>)"
    using validateFragmentProps_diagnostics [OF t5] g p5
    by (simp add: VALID_FRAGMENT_PROPS_def)
  have eleven: "warnings (final (validateFragmentProps 11 example_state)) = []"
    using validateFragmentProps_diagnostics [OF t11] p11 p5(3) by auto
  show ?thesis
    using t5 t11 five eleven p11 by (simp add: list_all_iff)
qed

text \<open>
  Claim C10. The reference check of \<^verbatim>\<open>validateFragmentProps\<close> is \<^verbatim>\<open>fragment.ref !== null\<close>:
  for an element whose type is not \<^verbatim>\<open>null\<close> or \<^verbatim>\<open>undefined\<close> (so that its stack line can
  be computed; a fragment is such an element), a reference that is \<^verbatim>\<open>undefined\<close> makes
  the invalid-reference diagnostic the last one emitted, and the call emits an
  invalid-reference diagnostic exactly when the reference is not \<^verbatim>\<open>null\<close> itself.
\<close>

theorem validateFragmentProps_ref_strictly_null:
  assumes "\<not> nullish (el_type (heap s a))"
  shows "(el_ref (heap s a) = Undefined \<longrightarrow>
            emitted s (final (validateFragmentProps a s)) \<noteq> []
          \<and> (\<exists>stack. last (emitted s (final (validateFragmentProps a s)))
                 = InvalidFragmentRef stack))
       \<and> ((\<exists>stack. InvalidFragmentRef stack \<in> set (emitted s (final (validateFragmentProps a s))))
            = (el_ref (heap s a) \<noteq> Null))"
proof -
  let ?s1 = "s\<lparr>currentlyValidatingElement := Some a\<rparr>"
  obtain stack where stack: "getStackAddendum ?s1 = Inr stack"
    using assms getStackAddendum_defined [of ?s1 a] by auto
  show ?thesis
    using validateFragmentProps_result [OF stack]
    by (auto simp: emitted_def split: option.splits)
qed

theorem validateFragmentProps_ref_strictly_null_witness:
  "\<not> nullish (el_type (heap example_state 10))
   \<and> el_ref (heap example_state 10) = Undefined
   \<and> emitted example_state (final (validateFragmentProps 10 example_state))
       = [InvalidFragmentRef '' in React.Fragment'']
   \<and> \<not> nullish (el_type (heap example_state 11))
   \<and> el_ref (heap example_state 11) = Null
   \<and> InvalidFragmentRef '' in React.Fragment''
       \<notin> set (emitted example_state (final (validateFragmentProps 11 example_state)))"
proof -
  have t: "\<not> nullish (el_type (heap example_state 10))"
    "\<not> nullish (el_type (heap example_state 11))"
    by (simp_all add: evaluation)
  have r: "el_ref (heap example_state 10) = Undefined" "el_ref (heap example_state 11) = Null"
    by (simp_all add: evaluation)
  have e: "emitted example_state (final (validateFragmentProps 10 example_state))
       = [InvalidFragmentRef '' in React.Fragment'']"
    by (simp add: evaluation evaluation_more emitted_def)
  show ?thesis
    using validateFragmentProps_ref_strictly_null [OF t(1)]
      validateFragmentProps_ref_strictly_null [OF t(2)] t r e
    by simp
qed

subsection \<open>Traversals\<close>

lemma elements_of_simps [simp]:
  "elements_of [] = []"
  "elements_of (Elem a # vs) = a # elements_of vs"
  "\<not> (\<exists>a. v = Elem a) \<Longrightarrow> elements_of (v # vs) = elements_of vs"
  by (auto simp: elements_of_def split: jsval.splits)

lemma validateChildKeys_iterate_each:
  "validateChildKeys_iterate vals fin parentType s =
     (case validateExplicitKey_each (elements_of vals) parentType s of
        Inl x \<Rightarrow> Inl x
      | Inr s' \<Rightarrow> (case fin of Done \<Rightarrow> Inr s' | Throws \<Rightarrow> Inl (IteratorError, s')))"
proof (induction vals arbitrary: s)
  case Nil
  then show ?case by simp
next
  case (Cons v vals)
  show ?case
  proof (cases v)
    case (Elem a)
    then show ?thesis using Cons.IH by (simp split: sum.splits)
  qed (use Cons.IH in simp_all)
qed

lemma validateChildKeys_array_each:
  "validateChildKeys_array vals parentType s =
     validateExplicitKey_each (elements_of vals) parentType s"
proof (induction vals arbitrary: s)
  case Nil
  then show ?case by simp
next
  case (Cons v vals)
  show ?case
  proof (cases v)
    case (Elem a)
    then show ?thesis using Cons.IH by (simp split: sum.splits)
  qed (use Cons.IH in simp_all)
qed

text \<open>
  Claim C6. For an object that is neither an array nor an element and whose iterator
  property (\<^verbatim>\<open>Symbol.iterator\<close> where the engine has symbols and the property is truthy,
  \<^verbatim>\<open>'@@iterator'\<close> otherwise) is a function: if that function is the object's own
  \<^verbatim>\<open>entries\<close> function, \<^verbatim>\<open>validateChildKeys\<close> returns with the state unchanged, so nothing
  is iterated and nothing is emitted; otherwise it runs \<^verbatim>\<open>validateExplicitKey\<close> on every
  produced value that is an element, in order, until the iterator is exhausted (an
  exception raised by a validation or by the iterator itself ends the call).
\<close>

theorem validateChildKeys_iterator:
  assumes "iteratorFn s symbolIterator fauxIterator = Callable f vals fin"
  shows "validateChildKeys (Obj keys src symbolIterator fauxIterator entries) parentType s =
     (if Some f = entries then Inr s
      else (case validateExplicitKey_each (elements_of vals) parentType s of
              Inl x \<Rightarrow> Inl x
            | Inr s' \<Rightarrow> (case fin of Done \<Rightarrow> Inr s' | Throws \<Rightarrow> Inl (IteratorError, s'))))"
  using assms by (simp add: validateChildKeys_def typeof_def validateChildKeys_iterate_each)

theorem validateChildKeys_iterator_witness:
  "iteratorFn example_state (Callable 1 [Elem 1, Str ''text'', Elem 2] Done) Absent
     = Callable 1 [Elem 1, Str ''text'', Elem 2] Done
   \<and> warnings (final (validateChildKeys
        (Obj [] None (Callable 1 [Elem 1, Str ''text'', Elem 2] Done) Absent (Some 2))
        (Str ''ul'') example_state)) = [MissingKey ul_context [] '' in li'']
   \<and> el_store (heap (final (validateChildKeys
        (Obj [] None (Callable 1 [Elem 1, Str ''text'', Elem 2] Done) Absent (Some 2))
        (Str ''ul'') example_state)) 2) = Some True
   \<and> validateChildKeys
        (Obj [] None (Callable 1 [Elem 1, Str ''text'', Elem 2] Done) Absent (Some 1))
        (Str ''ul'') example_state = Inr example_state"
proof -
  let ?it = "Callable 1 [Elem 1, Str ''text'', Elem 2] Done"
  have i: "iteratorFn example_state ?it Absent = ?it"
    by (simp add: iteratorFn_def evaluation)
  have e: "elements_of [Elem 1, Str ''text'', Elem 2] = [1, 2]"
    by simp
  have "\<exists>t. validateExplicitKey_each [1, 2] (Str ''ul'') example_state = Inr t
      \<and> warnings t = [MissingKey ul_context [] '' in li'']
      \<and> el_store (heap t 2) = Some True"
    by (simp add: evaluation ul_context_def)
  then obtain t where t: "validateExplicitKey_each [1, 2] (Str ''ul'') example_state = Inr t"
    "warnings t = [MissingKey ul_context [] '' in li'']" "el_store (heap t 2) = Some True"
    by blast
  have n: "validateChildKeys (Obj [] None ?it Absent (Some 2)) (Str ''ul'') example_state = Inr t"
    using validateChildKeys_iterator [OF i, of "[]" None "Some 2" "Str ''ul''"] e t(1)
    by (simp del: validateExplicitKey_each.simps)
  show ?thesis
    using validateChildKeys_iterator [OF i, of "[]" None "Some 1" "Str ''ul''"] n i t
    by simp
qed

subsection \<open>The facade\<close>

lemma validateChildKeys_arguments_each:
  "validateChildKeys_arguments i args parentType s =
     validateChildKeys_each (drop i args) parentType s"
proof (induction i args parentType s rule: validateChildKeys_arguments.induct)
  case (1 i args parentType s)
  show ?case
  proof (cases "i < length args")
    case False
    then show ?thesis by (simp add: validateChildKeys_arguments.simps)
  next
    case True
    then have d: "drop i args = args ! i # drop (Suc i) args"
      by (simp add: Cons_nth_drop_Suc)
    show ?thesis
      using True "1.IH" d
      by (simp add: validateChildKeys_arguments.simps [of i] split: sum.splits)
  qed
qed

lemma only_key_warnings_iff:
  "only_key_warnings s s' = (\<exists>ext. warnings s' = warnings s @ ext \<and> list_all is_MissingKey ext)"
proof
  assume "only_key_warnings s s'"
  then have "warnings s' = warnings s @ emitted s s'" "list_all is_MissingKey (emitted s s')"
    unfolding only_key_warnings_def emitted_def
    by (metis append_take_drop_id, simp)
  then show "\<exists>ext. warnings s' = warnings s @ ext \<and> list_all is_MissingKey ext" by blast
next
  assume "\<exists>ext. warnings s' = warnings s @ ext \<and> list_all is_MissingKey ext"
  then show "only_key_warnings s s'"
    by (auto simp: only_key_warnings_def emitted_def)
qed

lemma only_key_warnings_refl [simp]: "only_key_warnings s s"
  by (simp add: only_key_warnings_iff)

lemma only_key_warnings_trans:
  "only_key_warnings s t \<Longrightarrow> only_key_warnings t u \<Longrightarrow> only_key_warnings s u"
  by (auto simp: only_key_warnings_iff)

lemma validateExplicitKey_only_key_warnings:
  "only_key_warnings s (final (validateExplicitKey a pt s))"
  using validateExplicitKey_step [of a pt s]
  by (auto simp: only_key_warnings_iff is_MissingKey_def)

lemma validateExplicitKey_each_only_key_warnings:
  "only_key_warnings s (final (validateExplicitKey_each as pt s))"
proof (induction as arbitrary: s)
  case Nil
  then show ?case by simp
next
  case (Cons a as)
  show ?case
  proof (cases "validateExplicitKey a pt s")
    case (Inl p)
    then show ?thesis using validateExplicitKey_only_key_warnings [of s a pt]
      by (cases p) simp
  next
    case (Inr s')
    then show ?thesis
      using validateExplicitKey_only_key_warnings [of s a pt] Cons.IH [of s']
      by (auto intro: only_key_warnings_trans)
  qed
qed

lemma only_key_warnings_final_case:
  "only_key_warnings s (final r) \<Longrightarrow>
   only_key_warnings s (final (case r of Inl x \<Rightarrow> Inl x
      | Inr s' \<Rightarrow> (case fin of Done \<Rightarrow> Inr s' | Throws \<Rightarrow> Inl (IteratorError, s'))))"
  by (cases r; cases fin) (auto simp: final_def split: prod.splits)

lemma validateChildKeys_only_key_warnings:
  "only_key_warnings s (final (validateChildKeys node pt s))"
proof (cases node)
  case (Arr xs)
  then show ?thesis
    using validateExplicitKey_each_only_key_warnings [of s "elements_of xs" pt]
    by (simp add: validateChildKeys_def typeof_def validateChildKeys_array_each)
next
  case (Elem a)
  then show ?thesis
    by (auto simp: validateChildKeys_def typeof_def only_key_warnings_iff split: option.splits)
next
  case (Obj keys src symIt fauxIt entries)
  show ?thesis
  proof (cases "iteratorFn s symIt fauxIt")
    case (Callable f vals fin)
    show ?thesis
      using Callable only_key_warnings_final_case
          [OF validateExplicitKey_each_only_key_warnings [of s "elements_of vals" pt], of fin]
      by (simp add: Obj validateChildKeys_def typeof_def validateChildKeys_iterate_each)
  qed (simp_all add: Obj validateChildKeys_def typeof_def)
qed (simp_all add: validateChildKeys_def typeof_def)

lemma validateChildKeys_each_only_key_warnings:
  "only_key_warnings s (final (validateChildKeys_each nodes pt s))"
proof (induction nodes arbitrary: s)
  case Nil
  then show ?case by simp
next
  case (Cons n nodes)
  show ?case
  proof (cases "validateChildKeys n pt s")
    case (Inl p)
    then show ?thesis using validateChildKeys_only_key_warnings [of s n pt]
      by (cases p) simp
  next
    case (Inr s')
    then show ?thesis
      using validateChildKeys_only_key_warnings [of s n pt] Cons.IH [of s']
      by (auto intro: only_key_warnings_trans)
  qed
qed

lemma validateExplicitKey_type:
  "el_type (heap (final (validateExplicitKey a pt s)) b) = el_type (heap s b)"
  by (auto simp: validateExplicitKey_def Let_def warn_def split: sum.splits)

lemma validateExplicitKey_each_type:
  "el_type (heap (final (validateExplicitKey_each as pt s)) b) = el_type (heap s b)"
proof (induction as arbitrary: s)
  case Nil
  then show ?case by simp
next
  case (Cons a as)
  show ?case
  proof (cases "validateExplicitKey a pt s")
    case (Inl p)
    then show ?thesis using validateExplicitKey_type [of a pt s b] by (cases p) simp
  next
    case (Inr s')
    then show ?thesis using validateExplicitKey_type [of a pt s b] Cons.IH [of s'] by simp
  qed
qed

lemma final_iterator_end:
  "heap (final (case r of Inl x \<Rightarrow> Inl x
      | Inr s' \<Rightarrow> (case fin of Done \<Rightarrow> Inr s' | Throws \<Rightarrow> Inl (IteratorError, s'))))
   = heap (final r)"
  by (cases r; cases fin) (auto simp: final_def split: prod.splits)

lemma validateChildKeys_type:
  "el_type (heap (final (validateChildKeys node pt s)) b) = el_type (heap s b)"
proof (cases node)
  case (Arr xs)
  then show ?thesis
    using validateExplicitKey_each_type [of "elements_of xs" pt s b]
    by (simp add: validateChildKeys_def typeof_def validateChildKeys_array_each)
next
  case (Elem a)
  then show ?thesis
    by (auto simp: validateChildKeys_def typeof_def split: option.splits)
next
  case (Obj keys src symIt fauxIt entries)
  show ?thesis
  proof (cases "iteratorFn s symIt fauxIt")
    case (Callable f vals fin)
    show ?thesis
      using Callable validateExplicitKey_each_type [of "elements_of vals" pt s b]
      by (simp add: Obj validateChildKeys_def typeof_def validateChildKeys_iterate_each
          final_iterator_end)
  qed (simp_all add: Obj validateChildKeys_def typeof_def)
qed (simp_all add: validateChildKeys_def typeof_def)

lemma validateChildKeys_each_type:
  "el_type (heap (final (validateChildKeys_each nodes pt s)) b) = el_type (heap s b)"
proof (induction nodes arbitrary: s)
  case Nil
  then show ?case by simp
next
  case (Cons n nodes)
  show ?case
  proof (cases "validateChildKeys n pt s")
    case (Inl p)
    then show ?thesis using validateChildKeys_type [of n pt s b] by (cases p) simp
  next
    case (Inr s')
    then show ?thesis using validateChildKeys_type [of n pt s b] Cons.IH [of s'] by simp
  qed
qed

lemma validatePropTypes_not_callable:
  "typeof (el_type (heap s a)) \<noteq> ''function'' \<Longrightarrow> validatePropTypes checkPropTypes a s = Inr s"
  by (simp add: validatePropTypes_def typeof_def split: jsval.splits)

lemma typeof_fragment: "typeof (REACT_FRAGMENT_TYPE s) \<noteq> ''function''"
  by (simp add: REACT_FRAGMENT_TYPE_def typeof_def)

lemma cloneElementWithValidation_each:
  assumes "cloneElement args s = (a, h)"
  shows "cloneElementWithValidation checkPropTypes cloneElement args s =
           (case validateChildKeys_each (drop 2 args) (el_type (h a)) (s\<lparr>heap := h\<rparr>) of
              Inl x \<Rightarrow> Inl x
            | Inr s1 \<Rightarrow>
                (case validatePropTypes checkPropTypes a s1 of
                   Inl x \<Rightarrow> Inl x
                 | Inr s2 \<Rightarrow> Inr (a, s2)))"
  using assms by (simp add: cloneElementWithValidation_def validateChildKeys_arguments_each)

lemma cloneElementWithValidation_fragment:
  assumes c: "cloneElement args s = (a, h)" and f: "el_type (h a) = REACT_FRAGMENT_TYPE s"
  shows "cloneElementWithValidation checkPropTypes cloneElement args s =
           (case validateChildKeys_each (drop 2 args) (el_type (h a)) (s\<lparr>heap := h\<rparr>) of
              Inl x \<Rightarrow> Inl x
            | Inr s1 \<Rightarrow> Inr (a, s1))"
    and "only_key_warnings s
           (final_of (cloneElementWithValidation checkPropTypes cloneElement args s))"
proof -
  let ?k = "validateChildKeys_each (drop 2 args) (el_type (h a)) (s\<lparr>heap := h\<rparr>)"
  have ty: "el_type (heap (final ?k) a) = el_type (h a)"
    using validateChildKeys_each_type [of "drop 2 args" "el_type (h a)" "s\<lparr>heap := h\<rparr>" a]
    by simp
  have okw: "only_key_warnings (s\<lparr>heap := h\<rparr>) (final ?k)"
    by (rule validateChildKeys_each_only_key_warnings)
  have okw': "only_key_warnings s (final ?k)"
    using okw by (simp add: only_key_warnings_def emitted_def)
  show eq: "cloneElementWithValidation checkPropTypes cloneElement args s =
           (case ?k of Inl x \<Rightarrow> Inl x | Inr s1 \<Rightarrow> Inr (a, s1))"
  proof (cases ?k)
    case (Inl p)
    then show ?thesis using cloneElementWithValidation_each [where cloneElement = cloneElement and args = args and s = s
        and checkPropTypes = checkPropTypes, OF c] by simp
  next
    case (Inr s1)
    then have "typeof (el_type (heap s1 a)) \<noteq> ''function''"
      using ty f typeof_fragment [of s] by simp
    then have "validatePropTypes checkPropTypes a s1 = Inr s1"
      by (rule validatePropTypes_not_callable)
    then show ?thesis using Inr cloneElementWithValidation_each [where cloneElement = cloneElement and args = args and s = s
        and checkPropTypes = checkPropTypes, OF c] by simp
  qed
  show "only_key_warnings s
           (final_of (cloneElementWithValidation checkPropTypes cloneElement args s))"
    using okw' unfolding eq by (cases ?k) (auto simp: final_def final_of_def split: prod.splits)
qed

text \<open>
  Claim C9. \<^verbatim>\<open>cloneElementWithValidation\<close> takes the element the clone primitive returns,
  runs \<^verbatim>\<open>validateChildKeys\<close> on every argument after the first two, in order, with the
  clone's type as parent type, then runs \<^verbatim>\<open>validatePropTypes\<close> on the clone, and returns
  the clone itself (an exception raised on the way propagates). The fragment validator
  is not part of it: when the clone's type is the fragment marker the schema step does
  nothing, and the call emits missing-key diagnostics only, whatever the clone's
  properties and reference are.
\<close>

theorem cloneElementWithValidation_validates_clone:
  assumes "cloneElement args s = (a, h)"
  shows "cloneElementWithValidation checkPropTypes cloneElement args s =
           (case validateChildKeys_each (drop 2 args) (el_type (h a)) (s\<lparr>heap := h\<rparr>) of
              Inl x \<Rightarrow> Inl x
            | Inr s1 \<Rightarrow>
                (case validatePropTypes checkPropTypes a s1 of
                   Inl x \<Rightarrow> Inl x
                 | Inr s2 \<Rightarrow> Inr (a, s2)))
       \<and> (el_type (h a) = REACT_FRAGMENT_TYPE s \<longrightarrow>
            cloneElementWithValidation checkPropTypes cloneElement args s =
              (case validateChildKeys_each (drop 2 args) (el_type (h a)) (s\<lparr>heap := h\<rparr>) of
                 Inl x \<Rightarrow> Inl x
               | Inr s1 \<Rightarrow> Inr (a, s1))
          \<and> only_key_warnings s
              (final_of (cloneElementWithValidation checkPropTypes cloneElement args s)))"
  using cloneElementWithValidation_each [where cloneElement = cloneElement and args = args
      and s = s and checkPropTypes = checkPropTypes, OF assms]
    cloneElementWithValidation_fragment [where cloneElement = cloneElement and args = args
      and s = s and checkPropTypes = checkPropTypes, OF assms]
  by blast

lemmas evaluation_facade =
  cloneElementWithValidation_def createElementWithValidation_def
  validateChildKeys_arguments.simps validateChildKeys_def iteratorFn_def
  construct_at_def clone_at_def arg_def validType_def typeDescription_def
  invalidTypeInfo_def hasNoKeys_def getSourceInfoErrorAddendum_def missingExportHint_def

theorem cloneElementWithValidation_validates_clone_witness:
  "fst (clone_at 8 [Elem 5, Null, Arr [Elem 1, Elem 2]] example_state) = 8
   \<and> el_type (snd (clone_at 8 [Elem 5, Null, Arr [Elem 1, Elem 2]] example_state) 8)
       = REACT_FRAGMENT_TYPE example_state
   \<and> map fst (el_props (snd (clone_at 8 [Elem 5, Null, Arr [Elem 1, Elem 2]] example_state) 8))
       = [''children'', ''title'']
   \<and> only_key_warnings example_state
        (final_of (cloneElementWithValidation checker_accepts (clone_at 8)
           [Elem 5, Null, Arr [Elem 1, Elem 2]] example_state))
   \<and> warnings (final_of (cloneElementWithValidation checker_accepts (clone_at 8)
        [Elem 5, Null, Arr [Elem 1, Elem 2]] example_state))
       = [MissingKey [] [] '' in li'']"
proof -
  let ?args = "[Elem 5, Null, Arr [Elem 1, Elem 2]]"
  let ?h = "snd (clone_at 8 ?args example_state)"
  have c: "clone_at 8 ?args example_state = (8, ?h)"
    by (simp add: clone_at_def)
  have t: "el_type (?h 8) = REACT_FRAGMENT_TYPE example_state"
    by (simp add: evaluation evaluation_facade)
  have p: "map fst (el_props (?h 8)) = [''children'', ''title'']"
    by (simp add: evaluation evaluation_facade)
  have w: "warnings (final_of (cloneElementWithValidation checker_accepts (clone_at 8)
        ?args example_state)) = [MissingKey [] [] '' in li'']"
    by (simp add: evaluation evaluation_more evaluation_facade)
  have k: "only_key_warnings example_state
        (final_of (cloneElementWithValidation checker_accepts (clone_at 8) ?args example_state))"
    using cloneElementWithValidation_validates_clone
        [where cloneElement = "clone_at 8" and args = ?args and s = example_state
          and checkPropTypes = checker_accepts, OF c] t
    by blast
  have f: "fst (clone_at 8 ?args example_state) = 8"
    by (simp add: clone_at_def)
  show ?thesis
    using f t p w k by simp
qed

lemma invalidTypeInfo_hint:
  "ty = Undefined \<or> ty = Arr [] \<or> ty = Obj [] src symbolIterator fauxIterator entries \<Longrightarrow>
   take (length missingExportHint) (invalidTypeInfo s ty props) = missingExportHint"
  by (auto simp: invalidTypeInfo_def typeof_def hasNoKeys_def)

lemma createElementWithValidation_invalid_type:
  assumes "\<not> validType (arg args 0)"
    and "getStackAddendum s = Inr stack"
    and "createElement args
           (warn (InvalidType (typeDescription (arg args 0))
                    (invalidTypeInfo s (arg args 0) (arg args 1) @ stack)) s) = (r, h)"
    and "\<And>a. r = Some a \<Longrightarrow> typeof (el_type (h a)) \<noteq> ''function''"
  shows "createElementWithValidation checkPropTypes createElement args s =
           Inr (r, (warn (InvalidType (typeDescription (arg args 0))
                            (invalidTypeInfo s (arg args 0) (arg args 1) @ stack)) s)
                     \<lparr>heap := h\<rparr>)"
proof (cases r)
  case None
  then show ?thesis using assms(1-3)
    by (simp add: createElementWithValidation_def Let_def)
next
  case (Some a)
  let ?s1 = "(warn (InvalidType (typeDescription (arg args 0))
                            (invalidTypeInfo s (arg args 0) (arg args 1) @ stack)) s)\<lparr>heap := h\<rparr>"
  have nf: "typeof (arg args 0) \<noteq> ''symbol''"
    using assms(1) by (simp add: validType_def)
  have "typeof (el_type (heap ?s1 a)) \<noteq> ''function''"
    using assms(4) [OF Some] by simp
  then have "validatePropTypes checkPropTypes a ?s1 = Inr ?s1"
    by (rule validatePropTypes_not_callable)
  then show ?thesis using assms(1-3) Some nf
    by (simp add: createElementWithValidation_def Let_def)
qed

lemma createElementWithValidation_valid_type:
  assumes "validType (arg args 0)" and "createElement args s = (r, h)"
  shows "createElementWithValidation checkPropTypes createElement args s =
           (case r of
              None \<Rightarrow> Inr (None, s\<lparr>heap := h\<rparr>)
            | Some a \<Rightarrow>
                (case validateChildKeys_each (drop 2 args) (arg args 0) (s\<lparr>heap := h\<rparr>) of
                   Inl x \<Rightarrow> Inl x
                 | Inr s2 \<Rightarrow>
                     (case (if typeof (arg args 0) = ''symbol'' \<and> arg args 0 = REACT_FRAGMENT_TYPE s2
                            then validateFragmentProps a s2
                            else validatePropTypes checkPropTypes a s2) of
                        Inl x \<Rightarrow> Inl x
                      | Inr s3 \<Rightarrow> Inr (Some a, s3))))"
  using assms
  by (cases r) (simp_all add: createElementWithValidation_def Let_def
      validateChildKeys_arguments_each)

text \<open>
  Claim C8 says that every call with an invalid type emits exactly one invalid-type
  diagnostic, still calls the construction primitive and returns its result. The three
  lemmas above give that behaviour (and the validation of every argument after the
  first two when the type is valid) for every state in which the stack line can be
  computed. It fails in a state the module itself produces. The first call below has an
  invalid type and behaves as claimed: one diagnostic with the missing-export hint, and
  the element is returned. The second call has a valid type and that element in an
  array child: \<^verbatim>\<open>validateExplicitKey\<close> points \<^verbatim>\<open>currentlyValidatingElement\<close> at the element
  and raises while \<^verbatim>\<open>getDisplayName\<close> reads \<^verbatim>\<open>element.type.displayName\<close> of an \<^verbatim>\<open>undefined\<close>
  type, so the pointer stays set. The third call has an invalid type again: it raises
  in \<^verbatim>\<open>getStackAddendum\<close> before it emits anything and before it reaches the
  construction primitive, and the state is left as it was.
\<close>

theorem createElementWithValidation_invalid_type_raises:
  "\<not> validType (arg [Undefined] 0)
   \<and> createElementWithValidation checker_accepts (construct_at 20) [Undefined] example_state
       = Inr (Some 20, after_undefined_type)
   \<and> warnings after_undefined_type = [InvalidType ''undefined'' missingExportHint]
   \<and> el_type (heap after_undefined_type 20) = Undefined
   \<and> createElementWithValidation checker_accepts (construct_at 21)
        [Str ''div'', Null, Arr [Elem 20]] after_undefined_type
       = Inl (TypeError, after_invalid_child)
   \<and> currentlyValidatingElement after_invalid_child = Some 20
   \<and> createElementWithValidation checker_accepts (construct_at 22) [Undefined]
        after_invalid_child
       = Inl (TypeError, after_invalid_child)
   \<and> warnings after_invalid_child = [InvalidType ''undefined'' missingExportHint]"
  by (simp add: after_invalid_child_def after_undefined_type_def evaluation evaluation_more
      evaluation_facade)

end
